theory Spec2Isabelle
  imports Main
begin

section \<open>Message codec (utils.js)\<close>

text \<open>
  The four message kinds of \<^verbatim>\<open>MESSAGE_TYPES\<close>, as the strings the code compares with
  \<^verbatim>\<open>===\<close>.
\<close>

definition SESSION_HASH_QUERY :: string where
  "SESSION_HASH_QUERY = ''session-hash-query''"

definition SESSION_HASH_CLAIM :: string where
  "SESSION_HASH_CLAIM = ''session-hash-claim''"

definition SESSION_REGISTERED :: string where
  "SESSION_REGISTERED = ''session-registered''"

definition SESSION_CLOSED :: string where
  "SESSION_CLOSED = ''session-closed''"

text \<open>The log entry types of \<^verbatim>\<open>LOG_TYPES\<close>.\<close>

definition INFO :: string where "INFO = ''info''"
definition SUCCESS :: string where "SUCCESS = ''success''"
definition WARNING :: string where "WARNING = ''warning''"
definition ERROR :: string where "ERROR = ''error''"

text \<open>
  A value travelling on the channel is a plain object. \<^verbatim>\<open>main.js\<close> reads the properties
  \<^verbatim>\<open>type\<close>, \<^verbatim>\<open>hash\<close>, \<^verbatim>\<open>queryId\<close> and \<^verbatim>\<open>sessionId\<close> of it and nothing else; a property
  that is absent (JavaScript \<^verbatim>\<open>undefined\<close>, which is never \<^verbatim>\<open>===\<close> to a string) is
  \<open>None\<close>. The field \<open>mtype\<close> is the property \<^verbatim>\<open>type\<close>, the field \<open>msgSessionId\<close> the
  property \<^verbatim>\<open>sessionId\<close> (the name \<open>sessionId\<close> is kept for the module constant of
  \<^verbatim>\<open>main.js\<close>). Time is \<^verbatim>\<open>Date.now()\<close>, milliseconds since the epoch.
\<close>

record message =
  mtype :: string
  timestamp :: nat
  hash :: "string option"
  queryId :: "string option"
  msgSessionId :: "string option"

definition createBaseMessage :: "nat \<Rightarrow> string \<Rightarrow> message" where
  "createBaseMessage now ty =
     \<lparr>mtype = ty, timestamp = now, hash = None, queryId = None, msgSessionId = None\<rparr>"

definition createHashQueryMessage :: "nat \<Rightarrow> string \<Rightarrow> string \<Rightarrow> message" where
  "createHashQueryMessage now h q =
     (createBaseMessage now SESSION_HASH_QUERY)\<lparr>hash := Some h, queryId := Some q\<rparr>"

text \<open>
  \<^verbatim>\<open>handleMessage\<close> passes \<^verbatim>\<open>msgData.queryId\<close> on as it found it, so the second argument
  of \<^verbatim>\<open>createHashClaimMessage\<close> may be absent.
\<close>

definition createHashClaimMessage :: "nat \<Rightarrow> string \<Rightarrow> string option \<Rightarrow> string \<Rightarrow> message" where
  "createHashClaimMessage now h q sid =
     (createBaseMessage now SESSION_HASH_CLAIM)
       \<lparr>hash := Some h, queryId := q, msgSessionId := Some sid\<rparr>"

definition createSessionRegisteredMessage :: "nat \<Rightarrow> string \<Rightarrow> string \<Rightarrow> message" where
  "createSessionRegisteredMessage now sid h =
     (createBaseMessage now SESSION_REGISTERED)\<lparr>msgSessionId := Some sid, hash := Some h\<rparr>"

definition createSessionClosedMessage :: "nat \<Rightarrow> string \<Rightarrow> message" where
  "createSessionClosedMessage now sid =
     (createBaseMessage now SESSION_CLOSED)\<lparr>msgSessionId := Some sid\<rparr>"

section \<open>Session state (main.js)\<close>

text \<open>Template strings: a number in decimal, an absent property as \<^verbatim>\<open>undefined\<close>.\<close>

fun decimal :: "nat \<Rightarrow> string" where
  "decimal n =
     (if n < 10 then [''0123456789'' ! n]
      else decimal (n div 10) @ [''0123456789'' ! (n mod 10)])"

declare decimal.simps [simp del]

definition js_str :: "string option \<Rightarrow> string" where
  "js_str v = (case v of None \<Rightarrow> ''undefined'' | Some x \<Rightarrow> x)"

datatype error = InvalidStateError

text \<open>
  The module-level state of one session page.
  \<^item> \<open>sessionHash\<close>, \<open>isVerified\<close>, \<open>isClosingAsDuplicate\<close>: the variables of the source.
  \<^item> \<open>claimListener\<close>: \<open>Some q\<close> while \<^verbatim>\<open>handleClaim\<close> is subscribed to the channel, with
    the \<^verbatim>\<open>queryId\<close> its closure captured.
  \<^item> \<open>promise\<close>: the value the promise of \<^verbatim>\<open>checkForDuplicates\<close> settled with, \<open>None\<close>
    while it is pending.
  \<^item> \<open>resolveCalls\<close>: the argument of every call of \<^verbatim>\<open>resolve\<close>, in order;
    \<open>registerCalls\<close>: the number of calls of \<^verbatim>\<open>registerSession\<close>.
  \<^item> \<open>checkTimer\<close>, \<open>closeTimer\<close>: the 300 ms timer of \<^verbatim>\<open>checkForDuplicates\<close> and the
    500 ms timer of \<^verbatim>\<open>closeAsDuplicate\<close> are scheduled and have not fired.
  \<^item> \<open>channelClosed\<close>: \<^verbatim>\<open>channel.close()\<close> has run; \<open>posted\<close>: the messages published
    with \<^verbatim>\<open>channel.postMessage\<close>, oldest first.
  \<^item> \<open>displayStatus\<close>: text and class of the status badge; \<open>logContainer\<close>: the log
    entries (type, message), newest first as \<^verbatim>\<open>insertBefore\<close> puts them.
  \<^item> \<open>uncaught\<close>: the exceptions that left an event handler.
\<close>

record session =
  sessionHash :: string
  isVerified :: bool
  isClosingAsDuplicate :: bool
  claimListener :: "string option"
  promise :: "bool option"
  resolveCalls :: "bool list"
  registerCalls :: nat
  checkTimer :: bool
  closeTimer :: bool
  channelClosed :: bool
  posted :: "message list"
  displayStatus :: "string \<times> string"
  logContainer :: "(string \<times> string) list"
  uncaught :: "error list"

text \<open>\<^verbatim>\<open>const sessionId = sessionHash;\<close>\<close>

definition sessionId :: "session \<Rightarrow> string" where
  "sessionId s = sessionHash s"

text \<open>
  \<^verbatim>\<open>urlParams.get("hash") || `session-${Date.now()}`\<close>: a missing parameter and the
  empty string are both falsy.
\<close>

definition newSession :: "string option \<Rightarrow> nat \<Rightarrow> session" where
  "newSession hashParam now =
     \<lparr>sessionHash =
        (case hashParam of
           None \<Rightarrow> ''session-'' @ decimal now
         | Some h \<Rightarrow> if h = [] then ''session-'' @ decimal now else h),
      isVerified = False, isClosingAsDuplicate = False, claimListener = None,
      promise = None, resolveCalls = [], registerCalls = 0,
      checkTimer = False, closeTimer = False, channelClosed = False, posted = [],
      displayStatus = ([], []), logContainer = [], uncaught = []\<rparr>"

definition log :: "string \<Rightarrow> string \<Rightarrow> session \<Rightarrow> session" where
  "log msg ty s = s\<lparr>logContainer := (ty, msg) # logContainer s\<rparr>"

definition updateStatus :: "string \<Rightarrow> bool \<Rightarrow> session \<Rightarrow> session" where
  "updateStatus status isConnected s =
     s\<lparr>displayStatus :=
         (status, ''status-badge '' @ (if isConnected then ''connected'' else ''disconnected''))\<rparr>"

text \<open>\<^verbatim>\<open>postMessage\<close> on a closed BroadcastChannel throws InvalidStateError.\<close>

definition postMessage :: "message \<Rightarrow> session \<Rightarrow> error + session" where
  "postMessage m s =
     (if channelClosed s then Inl InvalidStateError else Inr (s\<lparr>posted := posted s @ [m]\<rparr>))"

definition reportError :: "error \<Rightarrow> session \<Rightarrow> session" where
  "reportError e s = s\<lparr>uncaught := uncaught s @ [e]\<rparr>"

section \<open>Session lifecycle\<close>

definition closeAsDuplicate :: "session \<Rightarrow> session" where
  "closeAsDuplicate s =
     (let s1 = s\<lparr>isClosingAsDuplicate := True\<rparr>;
          s2 = log ''Closing this window - another session with this hash is already active.''
                 WARNING s1;
          s3 = updateStatus ''Duplicate - Closing'' False s2
      in s3\<lparr>closeTimer := True\<rparr>)"

text \<open>
  The callback of the 500 ms timer: \<^verbatim>\<open>channel.close(); window.close();\<close> and the
  fallback markup.
\<close>

definition onCloseTimeout :: "session \<Rightarrow> session" where
  "onCloseTimeout s = s\<lparr>channelClosed := True\<rparr>"

text \<open>
  \<^verbatim>\<open>registerSession\<close> returns the exception it was left by, if any, with the state at
  that moment.
\<close>

definition registerSession :: "nat \<Rightarrow> session \<Rightarrow> error option \<times> session" where
  "registerSession now s =
     (let s0 = s\<lparr>registerCalls := Suc (registerCalls s)\<rparr> in
      case postMessage (createSessionRegisteredMessage now (sessionId s0) (sessionHash s0)) s0 of
        Inl e \<Rightarrow> (Some e, s0)
      | Inr s1 \<Rightarrow> (None, log ''Session registered'' SUCCESS (updateStatus ''Active'' True s1)))"

definition closeSession :: "nat \<Rightarrow> session \<Rightarrow> session" where
  "closeSession now s =
     (case postMessage (createSessionClosedMessage now (sessionId s)) s of
        Inl e \<Rightarrow> reportError e s
      | Inr s1 \<Rightarrow> (log ''Session closing'' WARNING s1)\<lparr>channelClosed := True\<rparr>)"

text \<open>The \<^verbatim>\<open>beforeunload\<close> listener.\<close>

definition onBeforeUnload :: "nat \<Rightarrow> session \<Rightarrow> session" where
  "onBeforeUnload now s =
     (if \<not> isClosingAsDuplicate s then
        (case postMessage (createSessionClosedMessage now (sessionId s)) s of
           Inl e \<Rightarrow> reportError e s
         | Inr s1 \<Rightarrow> s1\<lparr>channelClosed := True\<rparr>)
      else s\<lparr>channelClosed := True\<rparr>)"

section \<open>Duplicate detection\<close>

text \<open>
  The part of \<^verbatim>\<open>initialize\<close> after \<^verbatim>\<open>await checkForDuplicates()\<close>. It runs as a
  microtask once the promise has settled, before the next event is dispatched.
\<close>

definition initializeResume :: "nat \<Rightarrow> bool \<Rightarrow> session \<Rightarrow> session" where
  "initializeResume now isUnique s =
     (if isUnique then
        (case registerSession now (s\<lparr>isVerified := True\<rparr>) of
           (Some e, s1) \<Rightarrow> reportError e s1
         | (None, s1) \<Rightarrow> log (''Session initialized with hash: '' @ sessionHash s1) INFO s1)
      else closeAsDuplicate s)"

text \<open>
  \<^verbatim>\<open>resolve(v)\<close>: a promise settles once, a later call changes nothing. Nothing follows
  \<^verbatim>\<open>resolve\<close> in either caller, so the continuation of \<^verbatim>\<open>initialize\<close> is run here.
\<close>

definition resolve :: "nat \<Rightarrow> bool \<Rightarrow> session \<Rightarrow> session" where
  "resolve now v s =
     (let s0 = s\<lparr>resolveCalls := resolveCalls s @ [v]\<rparr> in
      case promise s0 of
        None \<Rightarrow> initializeResume now v (s0\<lparr>promise := Some v\<rparr>)
      | Some _ \<Rightarrow> s0)"

text \<open>\<^verbatim>\<open>handleClaim\<close>, the transient listener, with the \<^verbatim>\<open>queryId\<close> of its closure.\<close>

definition handleClaim :: "nat \<Rightarrow> string \<Rightarrow> message \<Rightarrow> session \<Rightarrow> session" where
  "handleClaim now q m s =
     (if mtype m = SESSION_HASH_CLAIM \<and> queryId m = Some q \<and> hash m = Some (sessionHash s) then
        (let s1 = log (''Duplicate found! Session '' @ [CHR 0x22] @ js_str (msgSessionId m)
                        @ [CHR 0x22] @ '' already owns this hash.'') WARNING s;
             s2 = s1\<lparr>claimListener := None\<rparr>
         in resolve now False s2)
      else s)"

text \<open>The callback of the 300 ms timer of \<^verbatim>\<open>checkForDuplicates\<close>.\<close>

definition onCheckTimeout :: "nat \<Rightarrow> session \<Rightarrow> session" where
  "onCheckTimeout now s =
     (let s1 = s\<lparr>claimListener := None\<rparr> in
      if \<not> isClosingAsDuplicate s1 then
        resolve now True (log ''No duplicate found. This session is unique.'' SUCCESS s1)
      else s1)"

text \<open>
  \<^verbatim>\<open>query-${Date.now()}-${Math.random().toString(36).slice(2, 9)}\<close>; the random suffix
  is an input.
\<close>

definition newQueryId :: "nat \<Rightarrow> string \<Rightarrow> string" where
  "newQueryId now rnd = ''query-'' @ decimal now @ ''-'' @ rnd"

text \<open>
  \<^verbatim>\<open>initialize\<close> up to the \<^verbatim>\<open>await\<close>: the status badge, then the executor of the
  promise of \<^verbatim>\<open>checkForDuplicates\<close>. If \<^verbatim>\<open>postMessage\<close> throws there, no timer is set.
  \<^verbatim>\<open>initializeDisplay\<close> writes the title and three text nodes that nothing reads.
\<close>

definition initialize :: "nat \<Rightarrow> string \<Rightarrow> session \<Rightarrow> session" where
  "initialize now rnd s =
     (let s1 = updateStatus ''Checking for duplicates...'' False s;
          q = newQueryId now rnd;
          s2 = log (''Checking for existing session with hash: '' @ sessionHash s1) INFO s1;
          s3 = s2\<lparr>claimListener := Some q\<rparr>
      in case postMessage (createHashQueryMessage now (sessionHash s3) q) s3 of
           Inl e \<Rightarrow> reportError e s3
         | Inr s4 \<Rightarrow> s4\<lparr>checkTimer := True\<rparr>)"

section \<open>Message handling\<close>

definition handleMessage :: "nat \<Rightarrow> message \<Rightarrow> session \<Rightarrow> session" where
  "handleMessage now m s =
     (if mtype m = SESSION_HASH_QUERY then
        (if isVerified s \<and> hash m = Some (sessionHash s) then
           (let s1 = log (''Another session queried for hash '' @ [CHR 0x22] @ js_str (hash m)
                           @ [CHR 0x22] @ '' - responding with claim'') INFO s
            in case postMessage
                      (createHashClaimMessage now (sessionHash s1) (queryId m) (sessionId s1)) s1 of
                 Inl e \<Rightarrow> reportError e s1
               | Inr s2 \<Rightarrow> s2)
         else s)
      else if msgSessionId m = Some (sessionId s) then s
      else if mtype m = SESSION_REGISTERED then
        log (''Sibling session opened: '' @ js_str (msgSessionId m)) INFO s
      else if mtype m = SESSION_CLOSED then
        log (''Sibling session closed: '' @ js_str (msgSessionId m)) INFO s
      else s)"

section \<open>The event loop\<close>

text \<open>
  What the browser can hand to the page: a message on the channel, the two timers, a
  click on the close button, and \<^verbatim>\<open>beforeunload\<close>. A closed channel dispatches nothing;
  a timer fires once. \<^verbatim>\<open>channel.onmessage\<close> is assigned before \<^verbatim>\<open>initialize()\<close> adds
  \<^verbatim>\<open>handleClaim\<close>, so \<^verbatim>\<open>handleMessage\<close> sees a message first.
\<close>

datatype event = Message message | CheckTimeout | CloseTimeout | Click | BeforeUnload

definition step :: "nat \<Rightarrow> event \<Rightarrow> session \<Rightarrow> session" where
  "step now ev s =
     (case ev of
        Message m \<Rightarrow>
          if channelClosed s then s
          else (let s1 = handleMessage now m s in
                case claimListener s1 of
                  None \<Rightarrow> s1
                | Some q \<Rightarrow> handleClaim now q m s1)
      | CheckTimeout \<Rightarrow> if checkTimer s then onCheckTimeout now (s\<lparr>checkTimer := False\<rparr>) else s
      | CloseTimeout \<Rightarrow> if closeTimer s then onCloseTimeout (s\<lparr>closeTimer := False\<rparr>) else s
      | Click \<Rightarrow> closeSession now s
      | BeforeUnload \<Rightarrow> onBeforeUnload now s)"

text \<open>A run: the events in the order the event loop takes them, each with its clock.\<close>

fun run :: "session \<Rightarrow> (nat \<times> event) list \<Rightarrow> session" where
  "run s [] = s"
| "run s ((now, ev) # evs) = run (step now ev s) evs"

text \<open>
  Loading the page: the module body up to and including \<^verbatim>\<open>initialize()\<close>, one task
  of the event loop, with one reading of the clock and a channel just opened.
\<close>

definition start :: "string option \<Rightarrow> nat \<Rightarrow> string \<Rightarrow> session" where
  "start hashParam now rnd = initialize now rnd (newSession hashParam now)"

section \<open>Vocabulary of the properties\<close>

text \<open>The hash-claims among published messages.\<close>

definition hashClaims :: "message list \<Rightarrow> message list" where
  "hashClaims ms = filter (\<lambda>m. mtype m = SESSION_HASH_CLAIM) ms"

text \<open>The registrations among published messages.\<close>

definition registrations :: "message list \<Rightarrow> message list" where
  "registrations ms = filter (\<lambda>m. mtype m = SESSION_REGISTERED) ms"

text \<open>
  The three phases of the state machine \<open>CHECKING \<rightarrow> {UNIQUE, DUPLICATE}\<close>, read off the
  variables: the check is pending; a claim resolved it; the timer resolved it.
\<close>

definition phaseChecking :: "session \<Rightarrow> bool" where
  "phaseChecking s \<longleftrightarrow>
     promise s = None \<and> resolveCalls s = [] \<and> \<not> isVerified s \<and> \<not> isClosingAsDuplicate s \<and>
     checkTimer s \<and> claimListener s \<noteq> None \<and> registerCalls s = 0 \<and> \<not> closeTimer s"

definition phaseDuplicate :: "session \<Rightarrow> bool" where
  "phaseDuplicate s \<longleftrightarrow>
     promise s = Some False \<and> resolveCalls s = [False] \<and> \<not> isVerified s \<and>
     isClosingAsDuplicate s \<and> claimListener s = None \<and> registerCalls s = 0 \<and>
     fst (displayStatus s) = ''Duplicate - Closing''"

definition phaseUnique :: "session \<Rightarrow> bool" where
  "phaseUnique s \<longleftrightarrow>
     promise s = Some True \<and> resolveCalls s = [True] \<and> isVerified s \<and>
     \<not> isClosingAsDuplicate s \<and> claimListener s = None \<and> \<not> checkTimer s \<and>
     registerCalls s = 1 \<and> \<not> closeTimer s"

section \<open>Evaluation and frame lemmas\<close>

lemmas run_defs = start_def newSession_def initialize_def step_def handleMessage_def
  handleClaim_def onCheckTimeout_def onCloseTimeout_def closeSession_def onBeforeUnload_def
  resolve_def initializeResume_def registerSession_def closeAsDuplicate_def postMessage_def
  log_def updateStatus_def reportError_def sessionId_def newQueryId_def js_str_def Let_def
  SESSION_HASH_QUERY_def SESSION_HASH_CLAIM_def SESSION_REGISTERED_def SESSION_CLOSED_def
  createBaseMessage_def createHashQueryMessage_def createHashClaimMessage_def
  createSessionRegisteredMessage_def createSessionClosedMessage_def decimal.simps
  INFO_def SUCCESS_def WARNING_def ERROR_def

lemma mtype_created [simp]:
  "mtype (createHashQueryMessage now h q) = SESSION_HASH_QUERY"
  "mtype (createHashClaimMessage now h qo sid) = SESSION_HASH_CLAIM"
  "mtype (createSessionRegisteredMessage now sid h) = SESSION_REGISTERED"
  "mtype (createSessionClosedMessage now sid) = SESSION_CLOSED"
  by (simp_all add: createHashQueryMessage_def createHashClaimMessage_def
      createSessionRegisteredMessage_def createSessionClosedMessage_def createBaseMessage_def)

lemma types_distinct [simp]:
  "SESSION_HASH_QUERY \<noteq> SESSION_HASH_CLAIM" "SESSION_HASH_CLAIM \<noteq> SESSION_HASH_QUERY"
  "SESSION_REGISTERED \<noteq> SESSION_HASH_CLAIM" "SESSION_HASH_CLAIM \<noteq> SESSION_REGISTERED"
  "SESSION_CLOSED \<noteq> SESSION_HASH_CLAIM" "SESSION_HASH_CLAIM \<noteq> SESSION_CLOSED"
  "SESSION_REGISTERED \<noteq> SESSION_HASH_QUERY" "SESSION_HASH_QUERY \<noteq> SESSION_REGISTERED"
  "SESSION_CLOSED \<noteq> SESSION_HASH_QUERY" "SESSION_HASH_QUERY \<noteq> SESSION_CLOSED"
  "SESSION_CLOSED \<noteq> SESSION_REGISTERED" "SESSION_REGISTERED \<noteq> SESSION_CLOSED"
  by (simp_all add: SESSION_HASH_QUERY_def SESSION_HASH_CLAIM_def SESSION_REGISTERED_def
      SESSION_CLOSED_def)

text \<open>What each handler leaves alone.\<close>

lemma handleMessage_frame:
  "sessionHash (handleMessage now m s) = sessionHash s"
  "isVerified (handleMessage now m s) = isVerified s"
  "isClosingAsDuplicate (handleMessage now m s) = isClosingAsDuplicate s"
  "claimListener (handleMessage now m s) = claimListener s"
  "promise (handleMessage now m s) = promise s"
  "resolveCalls (handleMessage now m s) = resolveCalls s"
  "registerCalls (handleMessage now m s) = registerCalls s"
  "checkTimer (handleMessage now m s) = checkTimer s"
  "closeTimer (handleMessage now m s) = closeTimer s"
  "channelClosed (handleMessage now m s) = channelClosed s"
  "displayStatus (handleMessage now m s) = displayStatus s"
  by (simp_all add: handleMessage_def postMessage_def log_def reportError_def Let_def)

lemma closeSession_frame:
  "sessionHash (closeSession now s) = sessionHash s"
  "isVerified (closeSession now s) = isVerified s"
  "isClosingAsDuplicate (closeSession now s) = isClosingAsDuplicate s"
  "claimListener (closeSession now s) = claimListener s"
  "promise (closeSession now s) = promise s"
  "resolveCalls (closeSession now s) = resolveCalls s"
  "registerCalls (closeSession now s) = registerCalls s"
  "checkTimer (closeSession now s) = checkTimer s"
  "closeTimer (closeSession now s) = closeTimer s"
  "displayStatus (closeSession now s) = displayStatus s"
  by (simp_all add: closeSession_def postMessage_def log_def reportError_def)

lemma onBeforeUnload_frame:
  "sessionHash (onBeforeUnload now s) = sessionHash s"
  "isVerified (onBeforeUnload now s) = isVerified s"
  "isClosingAsDuplicate (onBeforeUnload now s) = isClosingAsDuplicate s"
  "claimListener (onBeforeUnload now s) = claimListener s"
  "promise (onBeforeUnload now s) = promise s"
  "resolveCalls (onBeforeUnload now s) = resolveCalls s"
  "registerCalls (onBeforeUnload now s) = registerCalls s"
  "checkTimer (onBeforeUnload now s) = checkTimer s"
  "closeTimer (onBeforeUnload now s) = closeTimer s"
  "displayStatus (onBeforeUnload now s) = displayStatus s"
  "logContainer (onBeforeUnload now s) = logContainer s"
  by (simp_all add: onBeforeUnload_def postMessage_def reportError_def)

text \<open>What each handler publishes.\<close>

lemma posted_handleMessage:
  "posted (handleMessage now m s) =
     posted s @
     (if mtype m = SESSION_HASH_QUERY \<and> isVerified s \<and> hash m = Some (sessionHash s) \<and>
         \<not> channelClosed s
      then [createHashClaimMessage now (sessionHash s) (queryId m) (sessionId s)] else [])"
  by (simp add: handleMessage_def postMessage_def log_def reportError_def sessionId_def Let_def)

lemma posted_handleClaim: "posted (handleClaim now q m s) = posted s"
  by (simp add: handleClaim_def resolve_def initializeResume_def closeAsDuplicate_def log_def
      updateStatus_def Let_def split: option.split)

lemma handleClaim_other:
  "\<not> (mtype m = SESSION_HASH_CLAIM \<and> queryId m = Some q \<and> hash m = Some (sessionHash s)) \<Longrightarrow>
   handleClaim now q m s = s"
  by (auto simp: handleClaim_def)

lemma posted_onCheckTimeout:
  "posted (onCheckTimeout now s) =
     posted s @
     (if \<not> isClosingAsDuplicate s \<and> promise s = None \<and> \<not> channelClosed s
      then [createSessionRegisteredMessage now (sessionId s) (sessionHash s)] else [])"
  by (simp add: onCheckTimeout_def resolve_def initializeResume_def registerSession_def
      postMessage_def log_def updateStatus_def reportError_def sessionId_def Let_def
      split: option.split)

lemma posted_closeSession:
  "posted (closeSession now s) =
     posted s @ (if channelClosed s then [] else [createSessionClosedMessage now (sessionId s)])"
  by (simp add: closeSession_def postMessage_def log_def reportError_def)

lemma posted_onBeforeUnload:
  "posted (onBeforeUnload now s) =
     posted s @
     (if \<not> isClosingAsDuplicate s \<and> \<not> channelClosed s
      then [createSessionClosedMessage now (sessionId s)] else [])"
  by (simp add: onBeforeUnload_def postMessage_def reportError_def)

lemma posted_step:
  "posted (step now ev s) =
     posted s @
     (case ev of
        Message m \<Rightarrow>
          if \<not> channelClosed s \<and> mtype m = SESSION_HASH_QUERY \<and> isVerified s \<and>
             hash m = Some (sessionHash s)
          then [createHashClaimMessage now (sessionHash s) (queryId m) (sessionId s)] else []
      | CheckTimeout \<Rightarrow>
          if checkTimer s \<and> \<not> isClosingAsDuplicate s \<and> promise s = None \<and> \<not> channelClosed s
          then [createSessionRegisteredMessage now (sessionId s) (sessionHash s)] else []
      | CloseTimeout \<Rightarrow> []
      | Click \<Rightarrow> if channelClosed s then [] else [createSessionClosedMessage now (sessionId s)]
      | BeforeUnload \<Rightarrow>
          if \<not> isClosingAsDuplicate s \<and> \<not> channelClosed s
          then [createSessionClosedMessage now (sessionId s)] else [])"
proof (cases ev)
  case (Message m)
  then show ?thesis
    by (simp add: step_def Let_def posted_handleClaim posted_handleMessage split: option.split)
next
  case CheckTimeout
  then show ?thesis by (simp add: step_def posted_onCheckTimeout sessionId_def)
next
  case CloseTimeout
  then show ?thesis by (simp add: step_def onCloseTimeout_def)
next
  case Click
  then show ?thesis by (simp add: step_def posted_closeSession)
next
  case BeforeUnload
  then show ?thesis by (simp add: step_def posted_onBeforeUnload)
qed

lemma hashClaims_step:
  "hashClaims (posted (step now ev s)) =
     hashClaims (posted s) @
     (case ev of
        Message m \<Rightarrow>
          if \<not> channelClosed s \<and> mtype m = SESSION_HASH_QUERY \<and> isVerified s \<and>
             hash m = Some (sessionHash s)
          then [createHashClaimMessage now (sessionHash s) (queryId m) (sessionId s)] else []
      | _ \<Rightarrow> [])"
  by (cases ev) (simp_all add: posted_step hashClaims_def)

lemma start_posted:
  "posted (start hp t rnd) =
     [createHashQueryMessage t (sessionHash (start hp t rnd)) (newQueryId t rnd)]"
  by (simp add: start_def newSession_def initialize_def postMessage_def log_def updateStatus_def
      Let_def)

text \<open>\<open>isVerified\<close> is never reset.\<close>

lemma isVerified_step: "isVerified s \<Longrightarrow> isVerified (step now ev s)"
  by (cases ev)
     (simp_all add: step_def handleMessage_frame closeSession_frame onBeforeUnload_frame
        onCloseTimeout_def onCheckTimeout_def handleClaim_def resolve_def initializeResume_def
        closeAsDuplicate_def registerSession_def postMessage_def log_def updateStatus_def
        reportError_def Let_def split: option.split)

lemma isVerified_run: "isVerified s \<Longrightarrow> isVerified (run s evs)"
  by (induction evs arbitrary: s) (auto simp: isVerified_step)

lemma hashClaims_run_unverified:
  "\<not> isVerified (run s evs) \<Longrightarrow> hashClaims (posted (run s evs)) = hashClaims (posted s)"
proof (induction evs arbitrary: s)
  case Nil
  then show ?case by simp
next
  case (Cons e evs)
  obtain now ev where e: "e = (now, ev)" by (cases e)
  from Cons.prems e have nv: "\<not> isVerified (run (step now ev s) evs)" by simp
  then have "\<not> isVerified (step now ev s)" using isVerified_run by blast
  then have "\<not> isVerified s" using isVerified_step by blast
  then have "hashClaims (posted (step now ev s)) = hashClaims (posted s)"
    by (cases ev) (simp_all add: hashClaims_step)
  with Cons.IH [OF nv] e show ?case by simp
qed

text \<open>The dispatcher on messages that are not hash-queries; the transient listener on a match.\<close>

lemma handleMessage_claim_echo:
  "mtype m \<noteq> SESSION_HASH_QUERY \<Longrightarrow> msgSessionId m = Some (sessionId s) \<Longrightarrow>
   handleMessage now m s = s"
  by (simp add: handleMessage_def)

lemma handleMessage_claim_type:
  "mtype m = SESSION_HASH_CLAIM \<Longrightarrow> handleMessage now m s = s"
  by (simp add: handleMessage_def)

lemma handleClaim_match:
  "mtype m = SESSION_HASH_CLAIM \<Longrightarrow> queryId m = Some q \<Longrightarrow> hash m = Some (sessionHash s) \<Longrightarrow>
   promise s = None \<Longrightarrow>
   promise (handleClaim now q m s) = Some False \<and>
   resolveCalls (handleClaim now q m s) = resolveCalls s @ [False] \<and>
   claimListener (handleClaim now q m s) = None \<and>
   isClosingAsDuplicate (handleClaim now q m s) \<and>
   isVerified (handleClaim now q m s) = isVerified s \<and>
   registerCalls (handleClaim now q m s) = registerCalls s \<and>
   closeTimer (handleClaim now q m s)"
  by (simp add: handleClaim_def resolve_def initializeResume_def closeAsDuplicate_def log_def
      updateStatus_def Let_def)

section \<open>The phases are invariant\<close>

lemma start_checking: "phaseChecking (start hp now rnd)"
  by (simp add: start_def newSession_def phaseChecking_def initialize_def postMessage_def log_def
      updateStatus_def Let_def)

lemma handleClaim_checking:
  "phaseChecking s \<Longrightarrow>
   phaseChecking (handleClaim now q m s) \<or> phaseDuplicate (handleClaim now q m s)"
  by (simp add: phaseChecking_def phaseDuplicate_def handleClaim_def resolve_def
      initializeResume_def closeAsDuplicate_def log_def updateStatus_def Let_def)

lemma onCheckTimeout_checking:
  "phaseChecking s \<Longrightarrow> phaseUnique (onCheckTimeout now (s\<lparr>checkTimer := False\<rparr>))"
  by (simp add: phaseChecking_def phaseUnique_def onCheckTimeout_def resolve_def
      initializeResume_def registerSession_def postMessage_def log_def updateStatus_def
      reportError_def Let_def)

lemma step_checking:
  assumes c: "phaseChecking s"
  shows "phaseChecking (step now ev s) \<or> phaseDuplicate (step now ev s) \<or>
         phaseUnique (step now ev s)"
proof (cases ev)
  case (Message m)
  from c have "phaseChecking (handleMessage now m s)"
    by (simp add: phaseChecking_def handleMessage_frame)
  with c Message show ?thesis
    using handleClaim_checking [of "handleMessage now m s" now _ m]
    by (auto simp: step_def Let_def split: option.splits)
next
  case CheckTimeout
  from c have "checkTimer s" by (simp add: phaseChecking_def)
  with c CheckTimeout show ?thesis by (simp add: step_def onCheckTimeout_checking)
next
  case CloseTimeout
  with c show ?thesis by (simp add: step_def phaseChecking_def)
next
  case Click
  with c show ?thesis by (simp add: step_def phaseChecking_def closeSession_frame)
next
  case BeforeUnload
  with c show ?thesis by (simp add: step_def phaseChecking_def onBeforeUnload_frame)
qed

lemma step_duplicate: "phaseDuplicate s \<Longrightarrow> phaseDuplicate (step now ev s)"
  by (cases ev)
     (simp_all add: step_def phaseDuplicate_def handleMessage_frame closeSession_frame
        onBeforeUnload_frame onCheckTimeout_def onCloseTimeout_def Let_def)

lemma step_unique: "phaseUnique s \<Longrightarrow> phaseUnique (step now ev s)"
  by (cases ev)
     (simp_all add: step_def phaseUnique_def handleMessage_frame closeSession_frame
        onBeforeUnload_frame onCloseTimeout_def Let_def)

lemma run_duplicate: "phaseDuplicate s \<Longrightarrow> phaseDuplicate (run s evs)"
  by (induction evs arbitrary: s) (auto simp: step_duplicate)

lemma run_unique: "phaseUnique s \<Longrightarrow> phaseUnique (run s evs)"
  by (induction evs arbitrary: s) (auto simp: step_unique)

lemma run_checking:
  "phaseChecking s \<Longrightarrow>
   phaseChecking (run s evs) \<or> phaseDuplicate (run s evs) \<or> phaseUnique (run s evs)"
proof (induction evs arbitrary: s)
  case Nil
  then show ?case by simp
next
  case (Cons e evs)
  obtain now ev where e: "e = (now, ev)" by (cases e)
  from step_checking [OF Cons.prems, of now ev] show ?case
    using Cons.IH [of "step now ev s"] run_duplicate [of "step now ev s" evs]
      run_unique [of "step now ev s" evs] e
    by auto
qed

lemma reachable_phase:
  "phaseChecking (run (start hp t rnd) evs) \<or> phaseDuplicate (run (start hp t rnd) evs) \<or>
   phaseUnique (run (start hp t rnd) evs)"
  by (rule run_checking [OF start_checking])

lemma pending_unverified:
  "promise (run (start hp t rnd) evs) = None \<Longrightarrow> \<not> isVerified (run (start hp t rnd) evs)"
  using reachable_phase [of hp t rnd evs]
  by (auto simp: phaseChecking_def phaseDuplicate_def phaseUnique_def)

lemma handleMessage_query_sender:
  "mtype m = SESSION_HASH_QUERY \<Longrightarrow>
   handleMessage now (m\<lparr>msgSessionId := x\<rparr>) s = handleMessage now m s"
  by (simp add: handleMessage_def)

section \<open>Unregistered silence\<close>

text \<open>
  Claim C3. A session publishes a hash-claim only when \<open>isVerified\<close> is true and the
  queried hash is its own \<open>sessionHash\<close>: whatever the state and the event, the
  hash-claims published grow by exactly the answer to a hash-query for the own hash
  delivered to a verified session on an open channel, and by nothing otherwise. So an
  unverified session publishes nothing on a message, even on a query for its own hash,
  and at every state reachable from page load in which \<open>isVerified\<close> is still false no
  hash-claim has been published at all.
\<close>

theorem unregistered_silence:
  "(\<forall>now ev (s::session).
      hashClaims (posted (step now ev s)) =
        hashClaims (posted s) @
        (case ev of
           Message m \<Rightarrow>
             if \<not> channelClosed s \<and> mtype m = SESSION_HASH_QUERY \<and> isVerified s \<and>
                hash m = Some (sessionHash s)
             then [createHashClaimMessage now (sessionHash s) (queryId m) (sessionId s)] else []
         | _ \<Rightarrow> [])) \<and>
   (\<forall>now m (s::session). \<not> isVerified s \<longrightarrow> posted (handleMessage now m s) = posted s) \<and>
   (\<forall>hp t rnd evs.
      \<not> isVerified (run (start hp t rnd) evs) \<longrightarrow>
      hashClaims (posted (run (start hp t rnd) evs)) = [])"
proof (intro conjI allI impI)
  fix now ev and s :: session
  show "hashClaims (posted (step now ev s)) =
        hashClaims (posted s) @
        (case ev of
           Message m \<Rightarrow>
             if \<not> channelClosed s \<and> mtype m = SESSION_HASH_QUERY \<and> isVerified s \<and>
                hash m = Some (sessionHash s)
             then [createHashClaimMessage now (sessionHash s) (queryId m) (sessionId s)] else []
         | _ \<Rightarrow> [])"
    by (rule hashClaims_step)
next
  fix now m and s :: session
  assume "\<not> isVerified s"
  then show "posted (handleMessage now m s) = posted s"
    by (simp add: posted_handleMessage)
next
  fix hp t rnd evs
  assume "\<not> isVerified (run (start hp t rnd) evs)"
  then have "hashClaims (posted (run (start hp t rnd) evs)) = hashClaims (posted (start hp t rnd))"
    by (rule hashClaims_run_unverified)
  then show "hashClaims (posted (run (start hp t rnd) evs)) = []"
    by (simp add: start_posted hashClaims_def)
qed

theorem unregistered_silence_witness:
  "\<not> isVerified (start (Some ''abc'') 0 ''r'') \<and>
   posted (handleMessage 5 (createHashQueryMessage 4 ''abc'' ''q2'') (start (Some ''abc'') 0 ''r''))
     = posted (start (Some ''abc'') 0 ''r'') \<and>
   \<not> isVerified (run (start (Some ''abc'') 0 ''r'')
        [(5, Message (createHashQueryMessage 4 ''abc'' ''q2''))]) \<and>
   hashClaims (posted (run (start (Some ''abc'') 0 ''r'')
        [(5, Message (createHashQueryMessage 4 ''abc'' ''q2''))])) = []"
proof -
  have a: "\<not> isVerified (start (Some ''abc'') 0 ''r'')"
    by (simp add: run_defs)
  have b: "\<not> isVerified (run (start (Some ''abc'') 0 ''r'')
        [(5, Message (createHashQueryMessage 4 ''abc'' ''q2''))])"
    by (simp add: run_defs)
  from a b unregistered_silence show ?thesis by blast
qed

section \<open>Correlation of claims with the query\<close>

text \<open>
  Claim C5. While \<^verbatim>\<open>handleClaim\<close> waits with the locally generated \<open>queryId\<close> \<open>q\<close>, a
  delivered message whose type is not session-hash-claim, or whose \<open>queryId\<close> is not
  \<open>q\<close>, or whose hash is not the session's own, never resolves the check:
  \<^verbatim>\<open>handleClaim\<close> returns the state as it was, and after the whole dispatch of the message
  the promise, the calls of \<^verbatim>\<open>resolve\<close>, the listener, both flags, the timers, the
  channel and the status badge are as before.
\<close>

theorem correlation_correctness:
  "mtype m \<noteq> SESSION_HASH_CLAIM \<or> queryId m \<noteq> Some q \<or> hash m \<noteq> Some (sessionHash s) \<Longrightarrow>
   handleClaim now q m s = s \<and>
   (claimListener s = Some q \<longrightarrow>
      promise (step now (Message m) s) = promise s \<and>
      resolveCalls (step now (Message m) s) = resolveCalls s \<and>
      claimListener (step now (Message m) s) = Some q \<and>
      isVerified (step now (Message m) s) = isVerified s \<and>
      isClosingAsDuplicate (step now (Message m) s) = isClosingAsDuplicate s \<and>
      registerCalls (step now (Message m) s) = registerCalls s \<and>
      checkTimer (step now (Message m) s) = checkTimer s \<and>
      closeTimer (step now (Message m) s) = closeTimer s \<and>
      channelClosed (step now (Message m) s) = channelClosed s \<and>
      displayStatus (step now (Message m) s) = displayStatus s)"
proof -
  assume mis: "mtype m \<noteq> SESSION_HASH_CLAIM \<or> queryId m \<noteq> Some q \<or> hash m \<noteq> Some (sessionHash s)"
  then have a: "handleClaim now q m s = s"
    by (intro handleClaim_other) blast
  from mis have b: "handleClaim now q m (handleMessage now m s) = handleMessage now m s"
    by (intro handleClaim_other) (auto simp: handleMessage_frame)
  have "claimListener s = Some q \<Longrightarrow> step now (Message m) s = (if channelClosed s then s else handleMessage now m s)"
    using b by (simp add: step_def Let_def handleMessage_frame)
  with a show ?thesis by (simp add: handleMessage_frame)
qed

theorem correlation_correctness_witness:
  "promise (start (Some ''abc'') 0 ''r'') = None \<and>
   claimListener (start (Some ''abc'') 0 ''r'') = Some ''query-0-r'' \<and>
   promise (step 7 (Message (createHashClaimMessage 6 ''abc'' (Some ''query-0-zzz'') ''abc''))
             (start (Some ''abc'') 0 ''r'')) = None \<and>
   promise (step 7 (Message (createHashClaimMessage 6 ''abd'' (Some ''query-0-r'') ''abd''))
             (start (Some ''abc'') 0 ''r'')) = None \<and>
   handleClaim 7 ''query-0-r'' (createSessionRegisteredMessage 6 ''abc'' ''abc'')
     (start (Some ''abc'') 0 ''r'') = start (Some ''abc'') 0 ''r''"
proof -
  have l: "claimListener (start (Some ''abc'') 0 ''r'') = Some ''query-0-r''"
    and p: "promise (start (Some ''abc'') 0 ''r'') = None"
    and h: "sessionHash (start (Some ''abc'') 0 ''r'') = ''abc''"
    by (simp_all add: run_defs)
  have q: "queryId (createHashClaimMessage 6 ''abc'' (Some ''query-0-zzz'') ''abc'') \<noteq> Some ''query-0-r''"
    by (simp add: createHashClaimMessage_def createBaseMessage_def)
  have g: "hash (createHashClaimMessage 6 ''abd'' (Some ''query-0-r'') ''abd'')
             \<noteq> Some (sessionHash (start (Some ''abc'') 0 ''r''))"
    by (simp add: h createHashClaimMessage_def createBaseMessage_def)
  have t: "mtype (createSessionRegisteredMessage 6 ''abc'' ''abc'') \<noteq> SESSION_HASH_CLAIM"
    by simp
  show ?thesis
    using correlation_correctness [of "createHashClaimMessage 6 ''abc'' (Some ''query-0-zzz'') ''abc''"
            "''query-0-r''" "start (Some ''abc'') 0 ''r''" 7]
          correlation_correctness [of "createHashClaimMessage 6 ''abd'' (Some ''query-0-r'') ''abd''"
            "''query-0-r''" "start (Some ''abc'') 0 ''r''" 7]
          correlation_correctness [of "createSessionRegisteredMessage 6 ''abc'' ''abc''"
            "''query-0-r''" "start (Some ''abc'') 0 ''r''" 7]
          l p q g t
    by simp
qed

section \<open>Hash-queries carry no sender\<close>

text \<open>
  Claim C9. A message built by \<^verbatim>\<open>createHashQueryMessage\<close> has the fields type,
  timestamp, hash and queryId and no \<open>sessionId\<close>; the dispatcher returns from the
  hash-query branch before it looks at \<open>sessionId\<close>, so on a hash-query its result does
  not depend on that field. A session's own query, looped back, is not answered while
  \<open>isVerified\<close> is false, and the same message is answered once \<open>isVerified\<close> is true:
  nothing else stands in the way. While the promise of the session's own check is
  pending, \<open>isVerified\<close> is false and the looped-back query changes nothing.
\<close>

theorem hash_query_has_no_sender:
  "msgSessionId (createHashQueryMessage t h q) = None \<and>
   createHashQueryMessage t h q =
     \<lparr>mtype = SESSION_HASH_QUERY, timestamp = t, hash = Some h, queryId = Some q,
      msgSessionId = None\<rparr> \<and>
   (\<forall>m x. mtype m = SESSION_HASH_QUERY \<longrightarrow>
      handleMessage now (m\<lparr>msgSessionId := x\<rparr>) s = handleMessage now m s) \<and>
   (\<not> isVerified s \<longrightarrow> handleMessage now (createHashQueryMessage t (sessionHash s) q) s = s) \<and>
   (\<not> channelClosed s \<longrightarrow>
      posted (handleMessage now (createHashQueryMessage t (sessionHash s) q)
                (s\<lparr>isVerified := True\<rparr>)) =
        posted s @ [createHashClaimMessage now (sessionHash s) (Some q) (sessionId s)]) \<and>
   (promise (run (start hp t rnd) evs) = None \<longrightarrow>
      \<not> isVerified (run (start hp t rnd) evs) \<and>
      step now (Message (createHashQueryMessage t (sessionHash (start hp t rnd)) (newQueryId t rnd)))
        (run (start hp t rnd) evs) = run (start hp t rnd) evs)"
proof (intro conjI allI impI)
  show "msgSessionId (createHashQueryMessage t h q) = None"
    by (simp add: createHashQueryMessage_def createBaseMessage_def)
  show "createHashQueryMessage t h q =
     \<lparr>mtype = SESSION_HASH_QUERY, timestamp = t, hash = Some h, queryId = Some q,
      msgSessionId = None\<rparr>"
    by (simp add: createHashQueryMessage_def createBaseMessage_def)
next
  fix m :: message and x
  assume "mtype m = SESSION_HASH_QUERY"
  then show "handleMessage now (m\<lparr>msgSessionId := x\<rparr>) s = handleMessage now m s"
    by (rule handleMessage_query_sender)
next
  assume "\<not> isVerified s"
  then show "handleMessage now (createHashQueryMessage t (sessionHash s) q) s = s"
    by (simp add: handleMessage_def)
next
  assume "\<not> channelClosed s"
  then show "posted (handleMessage now (createHashQueryMessage t (sessionHash s) q)
                (s\<lparr>isVerified := True\<rparr>)) =
        posted s @ [createHashClaimMessage now (sessionHash s) (Some q) (sessionId s)]"
    by (simp add: posted_handleMessage sessionId_def createHashQueryMessage_def
        createBaseMessage_def)
next
  assume p: "promise (run (start hp t rnd) evs) = None"
  then show nv: "\<not> isVerified (run (start hp t rnd) evs)" by (rule pending_unverified)
  let ?s = "run (start hp t rnd) evs"
  let ?m = "createHashQueryMessage t (sessionHash (start hp t rnd)) (newQueryId t rnd)"
  have hm: "handleMessage now ?m ?s = ?s" using nv by (simp add: handleMessage_def)
  have "handleClaim now q' ?m ?s = ?s" for q'
    by (rule handleClaim_other) simp
  with hm show "step now (Message ?m) ?s = ?s"
    by (simp add: step_def Let_def split: option.split)
qed

theorem hash_query_has_no_sender_witness:
  "\<not> isVerified (start (Some ''abc'') 0 ''r'') \<and>
   \<not> channelClosed (start (Some ''abc'') 0 ''r'') \<and>
   promise (run (start (Some ''abc'') 0 ''r'') []) = None \<and>
   mtype (createHashQueryMessage 0 ''abc'' ''query-0-r'') = SESSION_HASH_QUERY \<and>
   handleMessage 1 ((createHashQueryMessage 0 ''abc'' ''query-0-r'')\<lparr>msgSessionId := Some ''abc''\<rparr>)
       (start (Some ''abc'') 0 ''r'') =
     handleMessage 1 (createHashQueryMessage 0 ''abc'' ''query-0-r'') (start (Some ''abc'') 0 ''r'') \<and>
   handleMessage 1 (createHashQueryMessage 0 ''abc'' ''query-0-r'') (start (Some ''abc'') 0 ''r'')
     = start (Some ''abc'') 0 ''r'' \<and>
   posted (handleMessage 1 (createHashQueryMessage 0 ''abc'' ''query-0-r'')
             ((start (Some ''abc'') 0 ''r'')\<lparr>isVerified := True\<rparr>)) =
     posted (start (Some ''abc'') 0 ''r'') @
       [createHashClaimMessage 1 ''abc'' (Some ''query-0-r'') ''abc''] \<and>
   step 1 (Message (createHashQueryMessage 0 ''abc'' ''query-0-r''))
       (run (start (Some ''abc'') 0 ''r'') []) =
     run (start (Some ''abc'') 0 ''r'') []"
proof -
  have h: "sessionHash (start (Some ''abc'') 0 ''r'') = ''abc''"
    and q: "newQueryId 0 ''r'' = ''query-0-r''"
    by (simp_all add: run_defs)
  have v: "\<not> isVerified (start (Some ''abc'') 0 ''r'')"
    and c: "\<not> channelClosed (start (Some ''abc'') 0 ''r'')"
    and p: "promise (run (start (Some ''abc'') 0 ''r'') []) = None"
    by (simp_all add: run_defs)
  have t: "mtype (createHashQueryMessage 0 ''abc'' ''query-0-r'') = SESSION_HASH_QUERY" by simp
  note T = hash_query_has_no_sender [of 0 "''abc''" "''query-0-r''" 1
      "start (Some ''abc'') 0 ''r''" "Some ''abc''" "''r''" "[]", unfolded sessionId_def h q]
  from T t v c p show ?thesis by blast
qed

section \<open>The self-echo filter\<close>

text \<open>
  Claim C4, as stated, fails: the dispatcher tests the type for session-hash-query first
  and only then compares \<open>sessionId\<close>. A verified session for hash \<^verbatim>\<open>abc\<close> that receives
  a hash-query for \<^verbatim>\<open>abc\<close> carrying \<open>sessionId\<close> \<^verbatim>\<open>abc\<close>, its own, answers with a
  hash-claim.
\<close>

theorem self_echo_filter_counterexample:
  "msgSessionId ((createHashQueryMessage 400 ''abc'' ''q'')\<lparr>msgSessionId := Some ''abc''\<rparr>) =
     Some (sessionId (run (start (Some ''abc'') 0 ''r'') [(300, CheckTimeout)])) \<and>
   handleMessage 401 ((createHashQueryMessage 400 ''abc'' ''q'')\<lparr>msgSessionId := Some ''abc''\<rparr>)
       (run (start (Some ''abc'') 0 ''r'') [(300, CheckTimeout)]) \<noteq>
     run (start (Some ''abc'') 0 ''r'') [(300, CheckTimeout)] \<and>
   posted (handleMessage 401
             ((createHashQueryMessage 400 ''abc'' ''q'')\<lparr>msgSessionId := Some ''abc''\<rparr>)
             (run (start (Some ''abc'') 0 ''r'') [(300, CheckTimeout)])) =
     posted (run (start (Some ''abc'') 0 ''r'') [(300, CheckTimeout)]) @
       [createHashClaimMessage 401 ''abc'' (Some ''q'') ''abc'']"
  by (simp add: run_defs)

text \<open>
  Claim C4, amended. A message that is not a hash-query and whose \<open>sessionId\<close> equals the
  local \<open>sessionId\<close> is ignored by \<^verbatim>\<open>handleMessage\<close>, whatever its type: the state is
  unchanged, nothing is logged or published. A hash-query is handled before the identity
  filter: its \<open>sessionId\<close> is not looked at, and it is answered exactly when
  \<open>isVerified\<close> holds, the hash is the session's own and the channel is open.
\<close>

theorem self_echo_filter_after_queries:
  "(mtype m \<noteq> SESSION_HASH_QUERY \<and> msgSessionId m = Some (sessionId s) \<longrightarrow>
      handleMessage now m s = s) \<and>
   (mtype m = SESSION_HASH_QUERY \<longrightarrow>
      handleMessage now (m\<lparr>msgSessionId := x\<rparr>) s = handleMessage now m s \<and>
      posted (handleMessage now m s) =
        posted s @
        (if isVerified s \<and> hash m = Some (sessionHash s) \<and> \<not> channelClosed s
         then [createHashClaimMessage now (sessionHash s) (queryId m) (sessionId s)] else []))"
  by (simp add: handleMessage_claim_echo handleMessage_query_sender posted_handleMessage)

theorem self_echo_filter_after_queries_witness:
  "mtype (createSessionClosedMessage 400 ''abc'') \<noteq> SESSION_HASH_QUERY \<and>
   msgSessionId (createSessionClosedMessage 400 ''abc'') =
     Some (sessionId (run (start (Some ''abc'') 0 ''r'') [(300, CheckTimeout)])) \<and>
   handleMessage 401 (createSessionClosedMessage 400 ''abc'')
       (run (start (Some ''abc'') 0 ''r'') [(300, CheckTimeout)]) =
     run (start (Some ''abc'') 0 ''r'') [(300, CheckTimeout)] \<and>
   mtype (createHashQueryMessage 400 ''abc'' ''q'') = SESSION_HASH_QUERY \<and>
   handleMessage 401 ((createHashQueryMessage 400 ''abc'' ''q'')\<lparr>msgSessionId := Some ''abc''\<rparr>)
       (run (start (Some ''abc'') 0 ''r'') [(300, CheckTimeout)]) =
     handleMessage 401 (createHashQueryMessage 400 ''abc'' ''q'')
       (run (start (Some ''abc'') 0 ''r'') [(300, CheckTimeout)])"
proof -
  have a: "mtype (createSessionClosedMessage 400 ''abc'') \<noteq> SESSION_HASH_QUERY" by simp
  have b: "msgSessionId (createSessionClosedMessage 400 ''abc'') =
     Some (sessionId (run (start (Some ''abc'') 0 ''r'') [(300, CheckTimeout)]))"
    by (simp add: run_defs)
  have c: "mtype (createHashQueryMessage 400 ''abc'' ''q'') = SESSION_HASH_QUERY" by simp
  from a b c
    self_echo_filter_after_queries [of "createSessionClosedMessage 400 ''abc''"
      "run (start (Some ''abc'') 0 ''r'') [(300, CheckTimeout)]" 401]
    self_echo_filter_after_queries [of "createHashQueryMessage 400 ''abc'' ''q''"
      "run (start (Some ''abc'') 0 ''r'') [(300, CheckTimeout)]" 401 "Some ''abc''"]
  show ?thesis by blast
qed

section \<open>A claim carries the contested hash as its sender\<close>

text \<open>
  Claim C8. Let session \<open>A\<close> be verified for the hash that session \<open>B\<close> is checking.
  The hash-claim with which \<open>A\<close> answers the query of \<open>B\<close> carries \<open>A\<close>'s \<open>sessionId\<close>,
  which equals \<open>B\<close>'s own \<open>sessionId\<close>, both being the contested hash. The dispatcher
  of \<open>B\<close> ignores it as a self-echo, but the transient listener applies no sender
  filter (whatever the \<open>sessionId\<close> field holds, a matching claim resolves), so the
  delivery resolves the check of \<open>B\<close> as Duplicate.
\<close>

theorem claim_with_own_sessionId_resolves:
  assumes "sessionHash A = sessionHash B" and "isVerified A" and "\<not> channelClosed A"
    and "claimListener B = Some q" and "promise B = None" and "\<not> channelClosed B"
  shows "posted (handleMessage tA (createHashQueryMessage t (sessionHash B) q) A) =
           posted A @ [createHashClaimMessage tA (sessionHash A) (Some q) (sessionId A)] \<and>
         msgSessionId (createHashClaimMessage tA (sessionHash A) (Some q) (sessionId A)) =
           Some (sessionId B) \<and>
         sessionId B = sessionHash B \<and>
         handleMessage tB (createHashClaimMessage tA (sessionHash A) (Some q) (sessionId A)) B = B \<and>
         promise (step tB (Message (createHashClaimMessage tA (sessionHash A) (Some q) (sessionId A)))
                    B) = Some False \<and>
         (\<forall>x. promise (handleClaim tB q
                 ((createHashClaimMessage tA (sessionHash A) (Some q) (sessionId A))
                    \<lparr>msgSessionId := x\<rparr>) B) = Some False)"
proof (intro conjI allI)
  let ?c = "createHashClaimMessage tA (sessionHash A) (Some q) (sessionId A)"
  show "posted (handleMessage tA (createHashQueryMessage t (sessionHash B) q) A) = posted A @ [?c]"
    using assms
    by (simp add: posted_handleMessage createHashQueryMessage_def createBaseMessage_def)
  show "msgSessionId ?c = Some (sessionId B)"
    using assms by (simp add: createHashClaimMessage_def createBaseMessage_def sessionId_def)
  show "sessionId B = sessionHash B" by (simp add: sessionId_def)
  show hm: "handleMessage tB ?c B = B"
    by (simp add: handleMessage_claim_type)
  have fields: "queryId ?c = Some q" "hash ?c = Some (sessionHash B)"
    using assms by (simp_all add: createHashClaimMessage_def createBaseMessage_def)
  have "promise (handleClaim tB q ?c B) = Some False"
    using handleClaim_match [of ?c q B tB] fields assms by simp
  with hm assms show "promise (step tB (Message ?c) B) = Some False"
    by (simp add: step_def Let_def)
  fix x
  show "promise (handleClaim tB q (?c\<lparr>msgSessionId := x\<rparr>) B) = Some False"
    using handleClaim_match [of "?c\<lparr>msgSessionId := x\<rparr>" q B tB] fields assms by simp
qed

theorem claim_with_own_sessionId_resolves_witness:
  "sessionHash (run (start (Some ''abc'') 0 ''r'') [(300, CheckTimeout)]) =
     sessionHash (start (Some ''abc'') 400 ''k'') \<and>
   isVerified (run (start (Some ''abc'') 0 ''r'') [(300, CheckTimeout)]) \<and>
   claimListener (start (Some ''abc'') 400 ''k'') = Some ''query-400-k'' \<and>
   msgSessionId (createHashClaimMessage 401 ''abc'' (Some ''query-400-k'') ''abc'') =
     Some (sessionId (start (Some ''abc'') 400 ''k'')) \<and>
   handleMessage 402 (createHashClaimMessage 401 ''abc'' (Some ''query-400-k'') ''abc'')
       (start (Some ''abc'') 400 ''k'') = start (Some ''abc'') 400 ''k'' \<and>
   promise (step 402 (Message (createHashClaimMessage 401 ''abc'' (Some ''query-400-k'') ''abc''))
              (start (Some ''abc'') 400 ''k'')) = Some False"
proof -
  let ?A = "run (start (Some ''abc'') 0 ''r'') [(300, CheckTimeout)]"
  let ?B = "start (Some ''abc'') 400 ''k''"
  have hA: "sessionHash ?A = ''abc''" and hB: "sessionHash ?B = ''abc''"
    by (simp_all add: run_defs)
  have a: "sessionHash ?A = sessionHash ?B" by (simp only: hA hB)
  have b: "isVerified ?A" and c: "\<not> channelClosed ?A"
    by (simp_all add: run_defs)
  have d: "claimListener ?B = Some ''query-400-k''" and e: "promise ?B = None"
    and f: "\<not> channelClosed ?B"
    by (simp_all add: run_defs)
  note T = claim_with_own_sessionId_resolves [OF a b c d e f, of 401 400 402,
      unfolded hA sessionId_def]
  from T a b d show ?thesis by (simp add: sessionId_def hA hB)
qed

section \<open>At-most-once resolution\<close>

text \<open>Nothing changes the hash of a session; a claim finds no listener after the first.\<close>

lemma sessionHash_step: "sessionHash (step now ev s) = sessionHash s"
  by (cases ev)
     (simp_all add: step_def handleMessage_frame closeSession_frame onBeforeUnload_frame
        onCloseTimeout_def onCheckTimeout_def handleClaim_def resolve_def initializeResume_def
        closeAsDuplicate_def registerSession_def postMessage_def log_def updateStatus_def
        reportError_def Let_def split: option.split)

lemma sessionHash_run: "sessionHash (run s evs) = sessionHash s"
  by (induction evs arbitrary: s) (auto simp: sessionHash_step)

lemma step_claim_unlistened:
  "claimListener s = None \<Longrightarrow> mtype c = SESSION_HASH_CLAIM \<Longrightarrow> step now (Message c) s = s"
  by (simp add: step_def Let_def handleMessage_claim_type)

lemma step_message_other:
  "claimListener s = Some q \<Longrightarrow>
   \<not> (mtype m = SESSION_HASH_CLAIM \<and> queryId m = Some q \<and> hash m = Some (sessionHash s)) \<Longrightarrow>
   step now (Message m) s = (if channelClosed s then s else handleMessage now m s)"
  using handleClaim_other [of m q "handleMessage now m s" now]
  by (simp add: step_def Let_def handleMessage_frame)

lemma step_claim_match:
  assumes "phaseChecking s" and "claimListener s = Some q" and "\<not> channelClosed s"
    and "mtype c = SESSION_HASH_CLAIM" and "queryId c = Some q" and "hash c = Some (sessionHash s)"
  shows "phaseDuplicate (step now (Message c) s)"
proof -
  from assms have st: "step now (Message c) s = handleClaim now q c s"
    by (simp add: step_def Let_def handleMessage_claim_type)
  from assms have "promise s = None" by (simp add: phaseChecking_def)
  with assms have "promise (handleClaim now q c s) = Some False"
    using handleClaim_match [of c q s now] by simp
  then have "\<not> phaseChecking (handleClaim now q c s)" by (simp add: phaseChecking_def)
  with handleClaim_checking [OF assms(1), of now q c] st show ?thesis by simp
qed

lemma timeout_resolves:
  "phaseChecking s \<Longrightarrow> CheckTimeout \<in> snd ` set evs \<Longrightarrow>
   phaseDuplicate (run s evs) \<or> phaseUnique (run s evs)"
proof (induction evs arbitrary: s)
  case Nil
  then show ?case by simp
next
  case (Cons e evs)
  obtain now ev where e: "e = (now, ev)" by (cases e)
  show ?case
  proof (cases "ev = CheckTimeout")
    case True
    from Cons.prems(1) have "checkTimer s" by (simp add: phaseChecking_def)
    with True Cons.prems(1) have "phaseUnique (step now ev s)"
      by (simp add: step_def onCheckTimeout_checking)
    then show ?thesis using e run_unique by simp
  next
    case False
    with Cons.prems(2) e have rest: "CheckTimeout \<in> snd ` set evs" by auto
    from step_checking [OF Cons.prems(1), of now ev] show ?thesis
      using Cons.IH [OF _ rest, of "step now ev s"] run_duplicate [of "step now ev s" evs]
        run_unique [of "step now ev s" evs] e
      by auto
  qed
qed

text \<open>
  Claim C2. From page load and along every sequence of events, \<^verbatim>\<open>resolve\<close> is called at
  most once, and exactly once as soon as the 300 ms timer has fired, the promise holding
  the value of that one call. The first claim matching the \<open>queryId\<close> and the hash
  resolves with false and removes the transient listener. Once the promise is settled,
  the delivery of any further hash-claim changes nothing at all, and no later event, the
  timer included, adds a call of \<^verbatim>\<open>resolve\<close> or changes the value.
\<close>

theorem at_most_once_resolution:
  "length (resolveCalls (run (start hp t rnd) evs)) \<le> 1 \<and>
   (CheckTimeout \<in> snd ` set evs \<longrightarrow>
      (\<exists>v. resolveCalls (run (start hp t rnd) evs) = [v] \<and>
           promise (run (start hp t rnd) evs) = Some v)) \<and>
   (\<forall>q now c.
      claimListener (run (start hp t rnd) evs) = Some q \<and>
      \<not> channelClosed (run (start hp t rnd) evs) \<and>
      mtype c = SESSION_HASH_CLAIM \<and> queryId c = Some q \<and>
      hash c = Some (sessionHash (run (start hp t rnd) evs)) \<longrightarrow>
      resolveCalls (step now (Message c) (run (start hp t rnd) evs)) = [False] \<and>
      promise (step now (Message c) (run (start hp t rnd) evs)) = Some False \<and>
      claimListener (step now (Message c) (run (start hp t rnd) evs)) = None) \<and>
   (\<forall>v. promise (run (start hp t rnd) evs) = Some v \<longrightarrow>
      (\<forall>now c. mtype c = SESSION_HASH_CLAIM \<longrightarrow>
         step now (Message c) (run (start hp t rnd) evs) = run (start hp t rnd) evs) \<and>
      (\<forall>more. resolveCalls (run (run (start hp t rnd) evs) more) = [v] \<and>
         promise (run (run (start hp t rnd) evs) more) = Some v))"
proof -
  let ?s = "run (start hp t rnd) evs"
  note ph = reachable_phase [of hp t rnd evs]
  have one: "length (resolveCalls ?s) \<le> 1"
    using ph by (auto simp: phaseChecking_def phaseDuplicate_def phaseUnique_def)
  have fired: "\<exists>v. resolveCalls ?s = [v] \<and> promise ?s = Some v"
    if "CheckTimeout \<in> snd ` set evs"
    using timeout_resolves [OF start_checking that, of hp t rnd]
    by (auto simp: phaseDuplicate_def phaseUnique_def)
  have first: "resolveCalls (step now (Message c) ?s) = [False] \<and>
      promise (step now (Message c) ?s) = Some False \<and>
      claimListener (step now (Message c) ?s) = None"
    if "claimListener ?s = Some q \<and> \<not> channelClosed ?s \<and>
      mtype c = SESSION_HASH_CLAIM \<and> queryId c = Some q \<and> hash c = Some (sessionHash ?s)"
    for q now c
  proof -
    from that ph have "phaseChecking ?s"
      by (auto simp: phaseDuplicate_def phaseUnique_def)
    with that have "phaseDuplicate (step now (Message c) ?s)"
      by (intro step_claim_match [of ?s q c]) simp_all
    then show ?thesis by (simp add: phaseDuplicate_def)
  qed
  have later: "(\<forall>now c. mtype c = SESSION_HASH_CLAIM \<longrightarrow> step now (Message c) ?s = ?s) \<and>
      (\<forall>more. resolveCalls (run ?s more) = [v] \<and> promise (run ?s more) = Some v)"
    if "promise ?s = Some v" for v
  proof -
    from that ph have r: "phaseDuplicate ?s \<and> v = False \<or> phaseUnique ?s \<and> v = True"
      by (auto simp: phaseChecking_def phaseDuplicate_def phaseUnique_def)
    then have "claimListener ?s = None" by (auto simp: phaseDuplicate_def phaseUnique_def)
    then have a: "\<forall>now c. mtype c = SESSION_HASH_CLAIM \<longrightarrow> step now (Message c) ?s = ?s"
      by (simp add: step_claim_unlistened)
    have "resolveCalls (run ?s more) = [v] \<and> promise (run ?s more) = Some v" for more
      using r run_duplicate [of ?s more] run_unique [of ?s more]
      by (auto simp: phaseDuplicate_def phaseUnique_def)
    with a show ?thesis by blast
  qed
  from one fired first later show ?thesis by blast
qed

theorem at_most_once_resolution_witness:
  "CheckTimeout \<in> snd ` set
     [(6, Message (createHashClaimMessage 5 ''abc'' (Some ''query-0-r'') ''abc'')),
      (7, Message (createHashClaimMessage 5 ''abc'' (Some ''query-0-r'') ''abc'')),
      (300, CheckTimeout)] \<and>
   (\<exists>v. resolveCalls (run (start (Some ''abc'') 0 ''r'')
     [(6, Message (createHashClaimMessage 5 ''abc'' (Some ''query-0-r'') ''abc'')),
      (7, Message (createHashClaimMessage 5 ''abc'' (Some ''query-0-r'') ''abc'')),
      (300, CheckTimeout)]) = [v]) \<and>
   claimListener (run (start (Some ''abc'') 0 ''r'') []) = Some ''query-0-r'' \<and>
   resolveCalls (step 6 (Message (createHashClaimMessage 5 ''abc'' (Some ''query-0-r'') ''abc''))
     (run (start (Some ''abc'') 0 ''r'') [])) = [False] \<and>
   promise (run (start (Some ''abc'') 0 ''r'')
     [(6, Message (createHashClaimMessage 5 ''abc'' (Some ''query-0-r'') ''abc''))]) = Some False \<and>
   step 7 (Message (createHashClaimMessage 5 ''abc'' (Some ''query-0-r'') ''abc''))
     (run (start (Some ''abc'') 0 ''r'')
       [(6, Message (createHashClaimMessage 5 ''abc'' (Some ''query-0-r'') ''abc''))]) =
     run (start (Some ''abc'') 0 ''r'')
       [(6, Message (createHashClaimMessage 5 ''abc'' (Some ''query-0-r'') ''abc''))] \<and>
   resolveCalls (run (run (start (Some ''abc'') 0 ''r'')
       [(6, Message (createHashClaimMessage 5 ''abc'' (Some ''query-0-r'') ''abc''))])
     [(300, CheckTimeout)]) = [False]"
proof -
  let ?c = "createHashClaimMessage 5 ''abc'' (Some ''query-0-r'') ''abc''"
  let ?S = "start (Some ''abc'') 0 ''r''"
  have a: "CheckTimeout \<in> snd ` set [(6, Message ?c), (7, Message ?c), (300, CheckTimeout)]"
    by simp
  have b: "claimListener (run ?S []) = Some ''query-0-r''"
    and c: "\<not> channelClosed (run ?S [])"
    and d: "hash ?c = Some (sessionHash (run ?S []))"
    and e: "queryId ?c = Some ''query-0-r''"
    and f: "promise (run ?S [(6, Message ?c)]) = Some False"
    by (simp_all add: run_defs)
  have g: "mtype ?c = SESSION_HASH_CLAIM" by simp
  from at_most_once_resolution [of "Some ''abc''" 0 "''r''"
      "[(6, Message ?c), (7, Message ?c), (300, CheckTimeout)]"] a
  have 1: "\<exists>v. resolveCalls (run ?S [(6, Message ?c), (7, Message ?c), (300, CheckTimeout)]) = [v]"
    by blast
  from at_most_once_resolution [of "Some ''abc''" 0 "''r''" "[]"] b c d e g
  have 2: "resolveCalls (step 6 (Message ?c) (run ?S [])) = [False]"
    by blast
  from at_most_once_resolution [of "Some ''abc''" 0 "''r''" "[(6, Message ?c)]"] f g
  have 3: "step 7 (Message ?c) (run ?S [(6, Message ?c)]) = run ?S [(6, Message ?c)]"
    and 4: "resolveCalls (run (run ?S [(6, Message ?c)]) [(300, CheckTimeout)]) = [False]"
    by blast+
  from a 1 b 2 f 3 4 show ?thesis by blast
qed

section \<open>Uniqueness when alone\<close>

lemma registrations_step:
  "promise s \<noteq> None \<Longrightarrow> registrations (posted (step now ev s)) = registrations (posted s)"
  by (cases ev) (auto simp: posted_step registrations_def)

lemma registrations_run_duplicate:
  "phaseDuplicate s \<Longrightarrow> registrations (posted (run s evs)) = registrations (posted s)"
proof (induction evs arbitrary: s)
  case Nil
  then show ?case by simp
next
  case (Cons e evs)
  obtain now ev where e: "e = (now, ev)" by (cases e)
  from Cons.prems have "promise s \<noteq> None" by (simp add: phaseDuplicate_def)
  then have "registrations (posted (step now ev s)) = registrations (posted s)"
    by (rule registrations_step)
  with Cons.IH [OF step_duplicate [OF Cons.prems, of now ev]] e show ?case by simp
qed

lemma registrations_run_unique:
  "phaseUnique s \<Longrightarrow> registrations (posted (run s evs)) = registrations (posted s)"
proof (induction evs arbitrary: s)
  case Nil
  then show ?case by simp
next
  case (Cons e evs)
  obtain now ev where e: "e = (now, ev)" by (cases e)
  from Cons.prems have "promise s \<noteq> None" by (simp add: phaseUnique_def)
  then have "registrations (posted (step now ev s)) = registrations (posted s)"
    by (rule registrations_step)
  with Cons.IH [OF step_unique [OF Cons.prems, of now ev]] e show ?case by simp
qed

text \<open>A checking session that hears no matching claim stays as it is, but for the log.\<close>

lemma quiet_step:
  assumes "phaseChecking s" and "claimListener s = Some q"
    and "\<not> (mtype m = SESSION_HASH_CLAIM \<and> queryId m = Some q \<and> hash m = Some (sessionHash s))"
  shows "phaseChecking (step now (Message m) s) \<and>
         claimListener (step now (Message m) s) = Some q \<and>
         channelClosed (step now (Message m) s) = channelClosed s \<and>
         posted (step now (Message m) s) = posted s \<and>
         displayStatus (step now (Message m) s) = displayStatus s"
proof -
  from assms(1) have "\<not> isVerified s" by (simp add: phaseChecking_def)
  then have "posted (handleMessage now m s) = posted s" by (simp add: posted_handleMessage)
  moreover from assms(1) have "phaseChecking (handleMessage now m s)"
    by (simp add: phaseChecking_def handleMessage_frame)
  ultimately show ?thesis
    using assms step_message_other [OF assms(2,3), of now]
    by (simp add: handleMessage_frame)
qed

lemma start_fields:
  "claimListener (start hp t rnd) = Some (newQueryId t rnd)"
  "\<not> channelClosed (start hp t rnd)"
  "displayStatus (start hp t rnd) = (''Checking for duplicates...'', ''status-badge disconnected'')"
  by (simp_all add: start_def newSession_def initialize_def postMessage_def log_def
      updateStatus_def Let_def)

lemma timeout_checking:
  assumes "phaseChecking s" and "\<not> channelClosed s"
  shows "phaseUnique (step now CheckTimeout s) \<and>
         posted (step now CheckTimeout s) =
           posted s @ [createSessionRegisteredMessage now (sessionId s) (sessionHash s)] \<and>
         displayStatus (step now CheckTimeout s) = (''Active'', ''status-badge connected'') \<and>
         \<not> channelClosed (step now CheckTimeout s) \<and> uncaught (step now CheckTimeout s) = uncaught s"
proof -
  from assms(1) have c: "checkTimer s" "\<not> isClosingAsDuplicate s" "promise s = None"
    by (simp_all add: phaseChecking_def)
  then have "phaseUnique (step now CheckTimeout s)"
    using onCheckTimeout_checking [OF assms(1), of now] by (simp add: step_def)
  moreover from c assms(2) have "posted (step now CheckTimeout s) =
      posted s @ [createSessionRegisteredMessage now (sessionId s) (sessionHash s)]"
    by (simp add: posted_step)
  moreover from c assms(2) have
    "displayStatus (step now CheckTimeout s) = (''Active'', ''status-badge connected'') \<and>
     \<not> channelClosed (step now CheckTimeout s) \<and> uncaught (step now CheckTimeout s) = uncaught s"
    by (simp add: step_def onCheckTimeout_def resolve_def initializeResume_def registerSession_def
        postMessage_def log_def updateStatus_def Let_def)
  ultimately show ?thesis by simp
qed

text \<open>A closed channel stays closed; a click on the close button and an unload close it.\<close>

lemma channelClosed_step: "channelClosed s \<Longrightarrow> channelClosed (step now ev s)"
  by (cases ev)
     (simp_all add: step_def onCheckTimeout_def onCloseTimeout_def closeSession_def
        onBeforeUnload_def resolve_def initializeResume_def closeAsDuplicate_def
        registerSession_def postMessage_def log_def updateStatus_def reportError_def Let_def
        split: option.split)

lemma channelClosed_run: "channelClosed s \<Longrightarrow> channelClosed (run s evs)"
  by (induction evs arbitrary: s) (auto simp: channelClosed_step)

lemma close_events_close:
  "channelClosed (step now Click s)" "channelClosed (step now BeforeUnload s)"
  by (simp_all add: step_def closeSession_def onBeforeUnload_def postMessage_def log_def
      reportError_def)

text \<open>
  A checking session whose timer has not fired, that has heard no matching claim and
  whose channel is still open has published nothing and is still checking.
\<close>

lemma alone_run:
  assumes "phaseChecking s" and "claimListener s = Some q"
    and "\<forall>e\<in>set pre. snd e \<noteq> CheckTimeout \<and>
           (\<forall>m. snd e = Message m \<longrightarrow>
              \<not> (mtype m = SESSION_HASH_CLAIM \<and> queryId m = Some q \<and>
                 hash m = Some (sessionHash s)))"
    and "\<not> channelClosed (run s pre)"
  shows "phaseChecking (run s pre) \<and> claimListener (run s pre) = Some q \<and>
         posted (run s pre) = posted s \<and> displayStatus (run s pre) = displayStatus s"
  using assms
proof (induction pre arbitrary: s)
  case Nil
  then show ?case by simp
next
  case (Cons e pre)
  obtain now ev where e: "e = (now, ev)" by (cases e)
  from Cons.prems(4) e have op: "\<not> channelClosed (run (step now ev s) pre)" by simp
  then have op1: "\<not> channelClosed (step now ev s)" using channelClosed_run by blast
  from Cons.prems(3) have rest: "\<forall>e\<in>set pre. snd e \<noteq> CheckTimeout \<and>
           (\<forall>m. snd e = Message m \<longrightarrow>
              \<not> (mtype m = SESSION_HASH_CLAIM \<and> queryId m = Some q \<and>
                 hash m = Some (sessionHash (step now ev s))))"
    by (simp add: sessionHash_step)
  have st: "phaseChecking (step now ev s) \<and> claimListener (step now ev s) = Some q \<and>
      posted (step now ev s) = posted s \<and> displayStatus (step now ev s) = displayStatus s"
  proof (cases ev)
    case (Message m)
    with Cons.prems(3) e have
      "\<not> (mtype m = SESSION_HASH_CLAIM \<and> queryId m = Some q \<and> hash m = Some (sessionHash s))"
      by simp
    from quiet_step [OF Cons.prems(1,2) this, of now] Message show ?thesis by simp
  next
    case CheckTimeout
    with Cons.prems(3) e show ?thesis by simp
  next
    case CloseTimeout
    with Cons.prems(1,2) show ?thesis by (simp add: step_def phaseChecking_def)
  next
    case Click
    with op1 close_events_close(1) [of now s] show ?thesis by simp
  next
    case BeforeUnload
    with op1 close_events_close(2) [of now s] show ?thesis by simp
  qed
  with Cons.IH [of "step now ev s", OF _ _ rest op] e show ?case by simp
qed

text \<open>
  Claim C6, as stated, fails. A session loaded for hash \<^verbatim>\<open>abc\<close> hears no claim and its
  close button is clicked at time 100: the check is still pending and
  \<open>isClosingAsDuplicate\<close> is false. At the timer the check resolves Unique,
  \<open>isVerified\<close> is set and \<^verbatim>\<open>registerSession\<close> is called, but its \<^verbatim>\<open>postMessage\<close>
  throws on the closed channel: no session-registered message is published, and a later
  query for \<^verbatim>\<open>abc\<close> is not answered.
\<close>

theorem uniqueness_when_alone_counterexample:
  "promise (run (start (Some ''abc'') 0 ''r'') [(100, Click)]) = None \<and>
   \<not> isClosingAsDuplicate (run (start (Some ''abc'') 0 ''r'') [(100, Click)]) \<and>
   promise (run (start (Some ''abc'') 0 ''r'') [(100, Click), (300, CheckTimeout)]) = Some True \<and>
   isVerified (run (start (Some ''abc'') 0 ''r'') [(100, Click), (300, CheckTimeout)]) \<and>
   registerCalls (run (start (Some ''abc'') 0 ''r'') [(100, Click), (300, CheckTimeout)]) = 1 \<and>
   posted (run (start (Some ''abc'') 0 ''r'') [(100, Click), (300, CheckTimeout)]) =
     [createHashQueryMessage 0 ''abc'' ''query-0-r'', createSessionClosedMessage 100 ''abc''] \<and>
   registrations (posted (run (start (Some ''abc'') 0 ''r'') [(100, Click), (300, CheckTimeout)]))
     = [] \<and>
   uncaught (run (start (Some ''abc'') 0 ''r'') [(100, Click), (300, CheckTimeout)]) =
     [InvalidStateError] \<and>
   posted (run (start (Some ''abc'') 0 ''r'')
     [(100, Click), (300, CheckTimeout),
      (500, Message (createHashQueryMessage 499 ''abc'' ''query-499-z''))]) =
     [createHashQueryMessage 0 ''abc'' ''query-0-r'', createSessionClosedMessage 100 ''abc'']"
  by (simp add: run_defs registrations_def)

text \<open>
  Claim C6, amended. A session is loaded for a hash; before its timer fires no hash-claim
  matching its \<open>queryId\<close> and hash is delivered to it, and its channel is still open
  when the timer fires (no click on the close button and no unload before). Then the
  check is pending at the timer, \<open>isClosingAsDuplicate\<close> is false and only the query
  has been published; at the timer the check resolves Unique (\<^verbatim>\<open>resolve(true)\<close>, once),
  \<open>isVerified\<close> is set, \<^verbatim>\<open>registerSession\<close> is called once and publishes one message
  of type session-registered whose \<open>sessionId\<close> is the session's \<open>sessionId\<close> and whose
  hash is its hash, and the badge shows Active. Whatever happens afterwards, no second
  registration is published, and every hash-query for the hash that is delivered while
  the channel is open is answered with a hash-claim for its \<open>queryId\<close>.
\<close>

theorem uniqueness_when_alone_and_open:
  fixes hp t rnd pre t1
  defines "B \<equiv> start hp t rnd"
    and "U \<equiv> step t1 CheckTimeout (run (start hp t rnd) pre)"
  assumes alone:
    "\<forall>e\<in>set pre. snd e \<noteq> CheckTimeout \<and>
       (\<forall>m. snd e = Message m \<longrightarrow>
          \<not> (mtype m = SESSION_HASH_CLAIM \<and> queryId m = Some (newQueryId t rnd) \<and>
             hash m = Some (sessionHash (start hp t rnd))))"
    and still_open: "\<not> channelClosed (run (start hp t rnd) pre)"
  shows "promise (run B pre) = None \<and> \<not> isClosingAsDuplicate (run B pre) \<and>
         posted (run B pre) =
           [\<lparr>mtype = SESSION_HASH_QUERY, timestamp = t, hash = Some (sessionHash B),
             queryId = Some (newQueryId t rnd), msgSessionId = None\<rparr>] \<and>
         promise U = Some True \<and> resolveCalls U = [True] \<and> isVerified U \<and> registerCalls U = 1 \<and>
         sessionId B = sessionHash B \<and>
         posted U =
           [\<lparr>mtype = SESSION_HASH_QUERY, timestamp = t, hash = Some (sessionHash B),
             queryId = Some (newQueryId t rnd), msgSessionId = None\<rparr>,
            \<lparr>mtype = SESSION_REGISTERED, timestamp = t1, hash = Some (sessionHash B),
             queryId = None, msgSessionId = Some (sessionId B)\<rparr>] \<and>
         displayStatus U = (''Active'', ''status-badge connected'') \<and>
         (\<forall>post.
            registerCalls (run U post) = 1 \<and>
            registrations (posted (run U post)) =
              [\<lparr>mtype = SESSION_REGISTERED, timestamp = t1, hash = Some (sessionHash B),
                queryId = None, msgSessionId = Some (sessionId B)\<rparr>] \<and>
            (\<forall>now m.
               \<not> channelClosed (run U post) \<and> mtype m = SESSION_HASH_QUERY \<and>
               hash m = Some (sessionHash B) \<longrightarrow>
               posted (step now (Message m) (run U post)) =
                 posted (run U post) @
                 [\<lparr>mtype = SESSION_HASH_CLAIM, timestamp = now, hash = Some (sessionHash B),
                   queryId = queryId m, msgSessionId = Some (sessionId B)\<rparr>]))"
proof -
  let ?P = "run B pre"
  let ?q = "\<lparr>mtype = SESSION_HASH_QUERY, timestamp = t, hash = Some (sessionHash B),
             queryId = Some (newQueryId t rnd), msgSessionId = None\<rparr>"
  let ?r = "\<lparr>mtype = SESSION_REGISTERED, timestamp = t1, hash = Some (sessionHash B),
             queryId = None, msgSessionId = Some (sessionId B)\<rparr>"
  have qrec: "createHashQueryMessage t (sessionHash B) (newQueryId t rnd) = ?q"
    by (simp add: createHashQueryMessage_def createBaseMessage_def)
  have rrec: "createSessionRegisteredMessage t1 (sessionId B) (sessionHash B) = ?r"
    by (simp add: createSessionRegisteredMessage_def createBaseMessage_def)
  have crec: "createHashClaimMessage now (sessionHash B) qo (sessionId B) =
      \<lparr>mtype = SESSION_HASH_CLAIM, timestamp = now, hash = Some (sessionHash B),
       queryId = qo, msgSessionId = Some (sessionId B)\<rparr>" for now qo
    by (simp add: createHashClaimMessage_def createBaseMessage_def)
  have q: "phaseChecking ?P \<and> claimListener ?P = Some (newQueryId t rnd) \<and>
      posted ?P = posted B \<and> displayStatus ?P = displayStatus B"
    unfolding B_def
    by (rule alone_run [OF start_checking start_fields(1) alone still_open])
  have open_P: "\<not> channelClosed ?P" using still_open by (simp add: B_def)
  from q have pend: "promise ?P = None \<and> \<not> isClosingAsDuplicate ?P"
    by (simp add: phaseChecking_def)
  from q have postP: "posted ?P = [?q]"
    by (simp add: B_def start_posted qrec [unfolded B_def])
  have hP: "sessionHash ?P = sessionHash B" "sessionId ?P = sessionId B"
    by (simp_all add: sessionHash_run sessionId_def)
  from q open_P have tc: "phaseUnique U \<and>
      posted U = posted ?P @ [createSessionRegisteredMessage t1 (sessionId ?P) (sessionHash ?P)] \<and>
      displayStatus U = (''Active'', ''status-badge connected'')"
    unfolding U_def B_def [symmetric] using timeout_checking [of ?P t1] by simp
  then have u: "phaseUnique U" by simp
  from tc postP hP have postU: "posted U = [?q, ?r]"
    by (simp add: rrec)
  have hU: "sessionHash U = sessionHash B"
    unfolding U_def B_def by (simp add: sessionHash_step sessionHash_run)
  have after: "registerCalls (run U post) = 1 \<and>
      registrations (posted (run U post)) = [?r] \<and>
      (\<forall>now m.
         \<not> channelClosed (run U post) \<and> mtype m = SESSION_HASH_QUERY \<and>
         hash m = Some (sessionHash B) \<longrightarrow>
         posted (step now (Message m) (run U post)) =
           posted (run U post) @
           [\<lparr>mtype = SESSION_HASH_CLAIM, timestamp = now, hash = Some (sessionHash B),
             queryId = queryId m, msgSessionId = Some (sessionId B)\<rparr>])" for post
  proof -
    from run_unique [OF u, of post] have v: "isVerified (run U post)" "registerCalls (run U post) = 1"
      by (simp_all add: phaseUnique_def)
    have r: "registrations (posted (run U post)) = [?r]"
      using registrations_run_unique [OF u, of post] postU
      by (simp add: registrations_def)
    have h: "sessionHash (run U post) = sessionHash B" "sessionId (run U post) = sessionId B"
      using hU by (simp_all add: sessionHash_run sessionId_def)
    from v h r show ?thesis by (simp add: posted_step crec)
  qed
  have sid: "sessionId B = sessionHash B" by (simp add: sessionId_def)
  from pend postP u postU tc after sid show ?thesis
    by (simp add: phaseUnique_def)
qed

theorem uniqueness_when_alone_and_open_witness:
  "\<not> channelClosed (run (start (Some ''abc'') 0 ''r'')
       [(5, Message (createSessionRegisteredMessage 5 ''xyz'' ''xyz'')),
        (6, Message (createHashClaimMessage 6 ''abc'' (Some ''query-0-k'') ''abc''))]) \<and>
   queryId (createHashClaimMessage 6 ''abc'' (Some ''query-0-k'') ''abc'') \<noteq>
     Some (newQueryId 0 ''r'') \<and>
   posted (step 300 CheckTimeout (run (start (Some ''abc'') 0 ''r'')
       [(5, Message (createSessionRegisteredMessage 5 ''xyz'' ''xyz'')),
        (6, Message (createHashClaimMessage 6 ''abc'' (Some ''query-0-k'') ''abc''))])) =
     [\<lparr>mtype = SESSION_HASH_QUERY, timestamp = 0, hash = Some ''abc'',
       queryId = Some ''query-0-r'', msgSessionId = None\<rparr>,
      \<lparr>mtype = SESSION_REGISTERED, timestamp = 300, hash = Some ''abc'',
       queryId = None, msgSessionId = Some ''abc''\<rparr>] \<and>
   isVerified (step 300 CheckTimeout (run (start (Some ''abc'') 0 ''r'')
       [(5, Message (createSessionRegisteredMessage 5 ''xyz'' ''xyz'')),
        (6, Message (createHashClaimMessage 6 ''abc'' (Some ''query-0-k'') ''abc''))])) \<and>
   posted (step 500 (Message (createHashQueryMessage 499 ''abc'' ''query-499-z''))
       (run (step 300 CheckTimeout (run (start (Some ''abc'') 0 ''r'')
         [(5, Message (createSessionRegisteredMessage 5 ''xyz'' ''xyz'')),
          (6, Message (createHashClaimMessage 6 ''abc'' (Some ''query-0-k'') ''abc''))])) [])) =
     posted (run (step 300 CheckTimeout (run (start (Some ''abc'') 0 ''r'')
         [(5, Message (createSessionRegisteredMessage 5 ''xyz'' ''xyz'')),
          (6, Message (createHashClaimMessage 6 ''abc'' (Some ''query-0-k'') ''abc''))])) []) @
       [\<lparr>mtype = SESSION_HASH_CLAIM, timestamp = 500, hash = Some ''abc'',
         queryId = Some ''query-499-z'', msgSessionId = Some ''abc''\<rparr>]"
proof -
  let ?pre = "[(5, Message (createSessionRegisteredMessage 5 ''xyz'' ''xyz'')),
               (6, Message (createHashClaimMessage 6 ''abc'' (Some ''query-0-k'') ''abc''))]"
  let ?U = "step 300 CheckTimeout (run (start (Some ''abc'') 0 ''r'') ?pre)"
  let ?m = "createHashQueryMessage 499 ''abc'' ''query-499-z''"
  have h: "sessionHash (start (Some ''abc'') 0 ''r'') = ''abc''"
    and i: "sessionId (start (Some ''abc'') 0 ''r'') = ''abc''"
    and q: "newQueryId 0 ''r'' = ''query-0-r''"
    by (simp_all add: run_defs)
  have alone: "\<forall>e\<in>set ?pre. snd e \<noteq> CheckTimeout \<and>
       (\<forall>m. snd e = Message m \<longrightarrow>
          \<not> (mtype m = SESSION_HASH_CLAIM \<and> queryId m = Some (newQueryId 0 ''r'') \<and>
             hash m = Some (sessionHash (start (Some ''abc'') 0 ''r''))))"
    by (simp add: h q createHashClaimMessage_def createBaseMessage_def)
  have o: "\<not> channelClosed (run (start (Some ''abc'') 0 ''r'') ?pre)"
    by (simp add: run_defs)
  have c: "\<not> channelClosed (run ?U [])" by (simp add: run_defs)
  have m: "mtype ?m = SESSION_HASH_QUERY" "hash ?m = Some ''abc''" "queryId ?m = Some ''query-499-z''"
    by (simp_all add: createHashQueryMessage_def createBaseMessage_def SESSION_HASH_QUERY_def)
  have 0: "queryId (createHashClaimMessage 6 ''abc'' (Some ''query-0-k'') ''abc'') \<noteq>
        Some (newQueryId 0 ''r'')"
    by (simp add: q createHashClaimMessage_def createBaseMessage_def)
  note T = uniqueness_when_alone_and_open [OF alone o, of 300, unfolded h i q]
  from T have 1: "posted ?U =
     [\<lparr>mtype = SESSION_HASH_QUERY, timestamp = 0, hash = Some ''abc'',
       queryId = Some ''query-0-r'', msgSessionId = None\<rparr>,
      \<lparr>mtype = SESSION_REGISTERED, timestamp = 300, hash = Some ''abc'',
       queryId = None, msgSessionId = Some ''abc''\<rparr>]" and 2: "isVerified ?U"
    by blast+
  from T c m have 3: "posted (step 500 (Message ?m) (run ?U [])) =
      posted (run ?U []) @
       [\<lparr>mtype = SESSION_HASH_CLAIM, timestamp = 500, hash = Some ''abc'',
         queryId = Some ''query-499-z'', msgSessionId = Some ''abc''\<rparr>]"
    by metis
  from o 0 1 2 3 show ?thesis by blast
qed

section \<open>Single winner under non-racing start\<close>

lemma handleClaim_frame:
  "channelClosed (handleClaim now q m s) = channelClosed s"
  "claimListener (handleClaim now q m s) = claimListener s \<or>
   claimListener (handleClaim now q m s) = None"
  by (simp_all add: handleClaim_def resolve_def initializeResume_def closeAsDuplicate_def
      registerSession_def postMessage_def log_def updateStatus_def reportError_def Let_def
      split: option.split)

lemma claimListener_step:
  "claimListener (step now ev s) = claimListener s \<or> claimListener (step now ev s) = None"
proof (cases ev)
  case (Message m)
  show ?thesis
  proof (cases "claimListener s")
    case None
    with Message show ?thesis by (simp add: step_def Let_def handleMessage_frame)
  next
    case (Some q)
    with Message handleClaim_frame(2) [of now q m "handleMessage now m s"] show ?thesis
      by (simp add: step_def Let_def handleMessage_frame)
  qed
next
  case CheckTimeout
  then show ?thesis
    by (simp add: step_def onCheckTimeout_def resolve_def initializeResume_def
        closeAsDuplicate_def registerSession_def postMessage_def log_def updateStatus_def
        reportError_def Let_def split: option.split)
next
  case CloseTimeout
  then show ?thesis by (simp add: step_def onCloseTimeout_def)
next
  case Click
  then show ?thesis by (simp add: step_def closeSession_frame)
next
  case BeforeUnload
  then show ?thesis by (simp add: step_def onBeforeUnload_frame)
qed

lemma unverified_step:
  "\<not> isVerified s \<Longrightarrow> ev \<noteq> CheckTimeout \<Longrightarrow> \<not> isVerified (step now ev s)"
  by (cases ev)
     (simp_all add: step_def handleMessage_frame closeSession_frame onBeforeUnload_frame
        onCloseTimeout_def handleClaim_def resolve_def initializeResume_def closeAsDuplicate_def
        log_def updateStatus_def Let_def split: option.split)

lemma registrations_step_other:
  "ev \<noteq> CheckTimeout \<Longrightarrow> registrations (posted (step now ev s)) = registrations (posted s)"
  by (cases ev) (simp_all add: posted_step registrations_def)

text \<open>Before the timer fires, a session is still checking or already a duplicate.\<close>

lemma pending_step:
  assumes "phaseChecking s \<or> phaseDuplicate s" and "ev \<noteq> CheckTimeout"
  shows "(phaseChecking (step now ev s) \<or> phaseDuplicate (step now ev s)) \<and>
         (phaseChecking (step now ev s) \<longrightarrow> claimListener (step now ev s) = claimListener s)"
proof -
  from assms(1) have "\<not> isVerified s" by (auto simp: phaseChecking_def phaseDuplicate_def)
  with assms(2) have "\<not> isVerified (step now ev s)" by (simp add: unverified_step)
  then have nu: "\<not> phaseUnique (step now ev s)" by (simp add: phaseUnique_def)
  have ph: "phaseChecking (step now ev s) \<or> phaseDuplicate (step now ev s)"
  proof (cases "phaseDuplicate s")
    case True
    then show ?thesis by (simp add: step_duplicate)
  next
    case False
    with assms(1) have "phaseChecking s" by simp
    from step_checking [OF this, of now ev] nu show ?thesis by blast
  qed
  from claimListener_step [of now ev s]
  have "phaseChecking (step now ev s) \<longrightarrow> claimListener (step now ev s) = claimListener s"
    by (auto simp: phaseChecking_def)
  with ph show ?thesis by simp
qed

lemma pending_run:
  assumes "phaseChecking s \<or> phaseDuplicate s" and "\<forall>e\<in>set pre. snd e \<noteq> CheckTimeout"
  shows "(phaseChecking (run s pre) \<or> phaseDuplicate (run s pre)) \<and>
         (phaseChecking (run s pre) \<longrightarrow> claimListener (run s pre) = claimListener s) \<and>
         registrations (posted (run s pre)) = registrations (posted s)"
  using assms
proof (induction pre arbitrary: s)
  case Nil
  then show ?case by simp
next
  case (Cons e pre)
  obtain now ev where e: "e = (now, ev)" by (cases e)
  with Cons.prems(2) have ev: "ev \<noteq> CheckTimeout" by auto
  note st = pending_step [OF Cons.prems(1) ev, of now]
  from Cons.prems(2) have rest: "\<forall>e\<in>set pre. snd e \<noteq> CheckTimeout" by simp
  from st have ph: "phaseChecking (step now ev s) \<or> phaseDuplicate (step now ev s)" by simp
  note ih = Cons.IH [OF ph rest]
  have "phaseChecking (run (step now ev s) pre) \<longrightarrow>
      claimListener (run (step now ev s) pre) = claimListener s"
  proof
    assume c: "phaseChecking (run (step now ev s) pre)"
    have "\<not> phaseDuplicate (step now ev s)"
    proof
      assume "phaseDuplicate (step now ev s)"
      then have "phaseDuplicate (run (step now ev s) pre)" by (rule run_duplicate)
      with c show False by (simp add: phaseChecking_def phaseDuplicate_def)
    qed
    with ph have "phaseChecking (step now ev s)" by simp
    with st ih c show "claimListener (run (step now ev s) pre) = claimListener s" by simp
  qed
  with ih e registrations_step_other [OF ev, of now s] show ?case by simp
qed

text \<open>
  Claim C1, as stated, fails. Session \<open>A\<close> is verified for \<^verbatim>\<open>abc\<close> and answers the
  query of a second session loaded for \<^verbatim>\<open>abc\<close> at time 400. If the close button of the
  second session is clicked before the answer arrives, or if the answer arrives after
  the second session's timer has fired, the second session resolves Unique, sets
  \<open>isVerified\<close> and calls \<^verbatim>\<open>registerSession\<close>.
\<close>

theorem single_winner_counterexample:
  "isVerified (run (start (Some ''abc'') 0 ''r'') [(300, CheckTimeout)]) \<and>
   sessionHash (run (start (Some ''abc'') 0 ''r'') [(300, CheckTimeout)]) =
     sessionHash (start (Some ''abc'') 400 ''k'') \<and>
   posted (start (Some ''abc'') 400 ''k'') = [createHashQueryMessage 400 ''abc'' ''query-400-k''] \<and>
   posted (step 402 (Message (createHashQueryMessage 400 ''abc'' ''query-400-k''))
            (run (start (Some ''abc'') 0 ''r'') [(300, CheckTimeout)])) =
     posted (run (start (Some ''abc'') 0 ''r'') [(300, CheckTimeout)]) @
       [createHashClaimMessage 402 ''abc'' (Some ''query-400-k'') ''abc''] \<and>
   promise (run (start (Some ''abc'') 400 ''k'')
      [(401, Click),
       (403, Message (createHashClaimMessage 402 ''abc'' (Some ''query-400-k'') ''abc'')),
       (700, CheckTimeout)]) = Some True \<and>
   isVerified (run (start (Some ''abc'') 400 ''k'')
      [(401, Click),
       (403, Message (createHashClaimMessage 402 ''abc'' (Some ''query-400-k'') ''abc'')),
       (700, CheckTimeout)]) \<and>
   registerCalls (run (start (Some ''abc'') 400 ''k'')
      [(401, Click),
       (403, Message (createHashClaimMessage 402 ''abc'' (Some ''query-400-k'') ''abc'')),
       (700, CheckTimeout)]) = 1 \<and>
   promise (run (start (Some ''abc'') 400 ''k'')
      [(700, CheckTimeout),
       (701, Message (createHashClaimMessage 402 ''abc'' (Some ''query-400-k'') ''abc''))]) =
     Some True \<and>
   isVerified (run (start (Some ''abc'') 400 ''k'')
      [(700, CheckTimeout),
       (701, Message (createHashClaimMessage 402 ''abc'' (Some ''query-400-k'') ''abc''))]) \<and>
   registerCalls (run (start (Some ''abc'') 400 ''k'')
      [(700, CheckTimeout),
       (701, Message (createHashClaimMessage 402 ''abc'' (Some ''query-400-k'') ''abc''))]) = 1"
  by (simp add: run_defs)

text \<open>
  Claim C1, amended. Session \<open>A\<close> is verified for a hash and its channel is open; a
  second session is loaded for the same hash. The query the second session published
  makes \<open>A\<close> publish a hash-claim with that \<open>queryId\<close>, the hash and \<open>A\<close>'s
  \<open>sessionId\<close>. If that claim is delivered to the second session before its timer has
  fired and while its channel is still open, the delivery resolves its check as
  Duplicate (\<^verbatim>\<open>checkForDuplicates\<close> yields false, by one call of \<^verbatim>\<open>resolve\<close>), and from
  then on, whatever events follow, \<open>isVerified\<close> stays false, \<^verbatim>\<open>registerSession\<close> is
  never called, no session-registered message is published and the badge reads
  Duplicate - Closing.
\<close>

theorem single_winner_while_pending:
  fixes A :: session and hp t rnd pre tA tB
  defines "B \<equiv> start hp t rnd"
    and "qm \<equiv> createHashQueryMessage t (sessionHash (start hp t rnd)) (newQueryId t rnd)"
    and "cm \<equiv> createHashClaimMessage tA (sessionHash A) (Some (newQueryId t rnd)) (sessionId A)"
    and "D \<equiv> step tB (Message
                (createHashClaimMessage tA (sessionHash A) (Some (newQueryId t rnd)) (sessionId A)))
              (run (start hp t rnd) pre)"
  assumes verified: "isVerified A" and open_A: "\<not> channelClosed A"
    and same: "sessionHash A = sessionHash (start hp t rnd)"
    and timer: "\<forall>e\<in>set pre. snd e \<noteq> CheckTimeout"
    and open_B: "\<not> channelClosed (run (start hp t rnd) pre)"
  shows "posted B = [qm] \<and>
         posted (step tA (Message qm) A) = posted A @ [cm] \<and>
         queryId cm = queryId qm \<and> msgSessionId cm = Some (sessionId A) \<and>
         hash cm = Some (sessionHash B) \<and>
         promise D = Some False \<and> resolveCalls D = [False] \<and> isClosingAsDuplicate D \<and>
         (\<forall>post.
            promise (run D post) = Some False \<and> \<not> isVerified (run D post) \<and>
            registerCalls (run D post) = 0 \<and> registrations (posted (run D post)) = [] \<and>
            fst (displayStatus (run D post)) = ''Duplicate - Closing'')"
proof -
  let ?P = "run B pre"
  have pB: "posted B = [qm]" by (simp add: B_def qm_def start_posted)
  have fq: "mtype qm = SESSION_HASH_QUERY" "hash qm = Some (sessionHash A)"
      "queryId qm = Some (newQueryId t rnd)"
    by (simp_all add: qm_def same createHashQueryMessage_def createBaseMessage_def)
  have fc: "mtype cm = SESSION_HASH_CLAIM" "hash cm = Some (sessionHash A)"
      "queryId cm = Some (newQueryId t rnd)" "msgSessionId cm = Some (sessionId A)"
    by (simp_all add: cm_def createHashClaimMessage_def createBaseMessage_def)
  from verified open_A fq have pA: "posted (step tA (Message qm) A) = posted A @ [cm]"
    by (simp add: posted_step cm_def)
  have mr: "(phaseChecking ?P \<or> phaseDuplicate ?P) \<and>
      (phaseChecking ?P \<longrightarrow> claimListener ?P = claimListener B) \<and>
      registrations (posted ?P) = registrations (posted B)"
    unfolding B_def using start_checking [of hp t rnd] timer by (intro pending_run) simp_all
  have oP: "\<not> channelClosed ?P" using open_B by (simp add: B_def)
  have hP: "sessionHash ?P = sessionHash A" by (simp add: B_def sessionHash_run same)
  have D: "D = step tB (Message cm) ?P" by (simp add: D_def cm_def B_def)
  have dup: "phaseDuplicate D"
  proof (cases "phaseDuplicate ?P")
    case True
    then show ?thesis unfolding D by (rule step_duplicate)
  next
    case False
    with mr have ch: "phaseChecking ?P" and l: "claimListener ?P = Some (newQueryId t rnd)"
      by (simp_all add: B_def start_fields)
    show ?thesis unfolding D
      by (rule step_claim_match [OF ch l oP fc(1) fc(3)]) (simp add: fc(2) hP)
  qed
  have rD: "registrations (posted D) = []"
    using mr pB registrations_step_other [of "Message cm" tB ?P]
    by (simp add: D registrations_def qm_def)
  have after: "promise (run D post) = Some False \<and> \<not> isVerified (run D post) \<and>
      registerCalls (run D post) = 0 \<and> registrations (posted (run D post)) = [] \<and>
      fst (displayStatus (run D post)) = ''Duplicate - Closing''" for post
    using run_duplicate [OF dup, of post] registrations_run_duplicate [OF dup, of post] rD
    by (simp add: phaseDuplicate_def)
  from pB pA fc fq dup after same show ?thesis by (simp add: phaseDuplicate_def B_def)
qed

theorem single_winner_while_pending_witness:
  "isVerified (run (start (Some ''abc'') 0 ''r'') [(300, CheckTimeout)]) \<and>
   \<not> channelClosed (run (start (Some ''abc'') 0 ''r'') [(300, CheckTimeout)]) \<and>
   sessionHash (run (start (Some ''abc'') 0 ''r'') [(300, CheckTimeout)]) =
     sessionHash (start (Some ''abc'') 400 ''k'') \<and>
   \<not> channelClosed (run (start (Some ''abc'') 400 ''k'')
       [(401, Message (createSessionRegisteredMessage 350 ''xyz'' ''xyz'')), (402, CloseTimeout)]) \<and>
   posted (step 402 (Message (createHashQueryMessage 400 ''abc'' ''query-400-k''))
            (run (start (Some ''abc'') 0 ''r'') [(300, CheckTimeout)])) =
     posted (run (start (Some ''abc'') 0 ''r'') [(300, CheckTimeout)]) @
       [createHashClaimMessage 402 ''abc'' (Some ''query-400-k'') ''abc''] \<and>
   promise (step 403 (Message (createHashClaimMessage 402 ''abc'' (Some ''query-400-k'') ''abc''))
             (run (start (Some ''abc'') 400 ''k'')
               [(401, Message (createSessionRegisteredMessage 350 ''xyz'' ''xyz'')),
                (402, CloseTimeout)])) =
     Some False \<and>
   \<not> isVerified
       (run (step 403 (Message (createHashClaimMessage 402 ''abc'' (Some ''query-400-k'') ''abc''))
              (run (start (Some ''abc'') 400 ''k'')
                [(401, Message (createSessionRegisteredMessage 350 ''xyz'' ''xyz'')),
                 (402, CloseTimeout)]))
          [(700, CheckTimeout), (903, CloseTimeout), (904, BeforeUnload)]) \<and>
   registerCalls
       (run (step 403 (Message (createHashClaimMessage 402 ''abc'' (Some ''query-400-k'') ''abc''))
              (run (start (Some ''abc'') 400 ''k'')
                [(401, Message (createSessionRegisteredMessage 350 ''xyz'' ''xyz'')),
                 (402, CloseTimeout)]))
          [(700, CheckTimeout), (903, CloseTimeout), (904, BeforeUnload)]) = 0"
proof -
  let ?A = "run (start (Some ''abc'') 0 ''r'') [(300, CheckTimeout)]"
  let ?pre = "[(401, Message (createSessionRegisteredMessage 350 ''xyz'' ''xyz'')),
               (402, CloseTimeout)]"
  have hA: "sessionHash ?A = ''abc''" and iA: "sessionId ?A = ''abc''"
    and hB: "sessionHash (start (Some ''abc'') 400 ''k'') = ''abc''"
    and q: "newQueryId 400 ''k'' = ''query-400-k''"
    by (simp_all add: run_defs)
  have v: "isVerified ?A" and c: "\<not> channelClosed ?A"
    by (simp_all add: run_defs)
  have s: "sessionHash ?A = sessionHash (start (Some ''abc'') 400 ''k'')"
    by (simp only: hA hB)
  have m: "\<forall>e\<in>set ?pre. snd e \<noteq> CheckTimeout" by simp
  have o: "\<not> channelClosed (run (start (Some ''abc'') 400 ''k'') ?pre)"
    by (simp add: run_defs)
  note T = single_winner_while_pending [OF v c s m o, of 402 403, unfolded hA iA hB q]
  from T v c s o show ?thesis by blast
qed

section \<open>Teardown of a duplicate\<close>

text \<open>What a session in the Duplicate phase publishes on an event.\<close>

lemma posted_step_duplicate:
  "phaseDuplicate s \<Longrightarrow>
   posted (step now ev s) =
     posted s @
     (if ev = Click \<and> \<not> channelClosed s then [createSessionClosedMessage now (sessionId s)]
      else [])"
  by (cases ev) (simp_all add: posted_step phaseDuplicate_def)

lemma duplicate_silent_without_click:
  "phaseDuplicate s \<Longrightarrow> \<forall>e\<in>set evs. snd e \<noteq> Click \<Longrightarrow> posted (run s evs) = posted s"
proof (induction evs arbitrary: s)
  case Nil
  then show ?case by simp
next
  case (Cons e evs)
  obtain now ev where e: "e = (now, ev)" by (cases e)
  with Cons.prems(2) have "ev \<noteq> Click" by auto
  with Cons.prems(1) have "posted (step now ev s) = posted s"
    by (simp add: posted_step_duplicate)
  with Cons.IH [OF step_duplicate [OF Cons.prems(1), of now ev]] Cons.prems(2) e
  show ?case by simp
qed

lemma closeAsDuplicate_posts_nothing:
  "isClosingAsDuplicate (closeAsDuplicate s) \<and> posted (closeAsDuplicate s) = posted s"
  by (simp add: closeAsDuplicate_def log_def updateStatus_def Let_def)

lemma onBeforeUnload_duplicate_posts_nothing:
  "isClosingAsDuplicate s \<Longrightarrow> posted (onBeforeUnload now s) = posted s"
  by (simp add: posted_onBeforeUnload)

text \<open>
  Claim C7. \<^verbatim>\<open>closeAsDuplicate\<close> sets \<open>isClosingAsDuplicate\<close> and publishes nothing, and
  the \<^verbatim>\<open>beforeunload\<close> listener publishes nothing under that flag (the two lemmas above).
  The session, however, does publish a session-closed message: the click listener
  \<^verbatim>\<open>closeSession\<close> has no such guard. A session loaded for hash \<^verbatim>\<open>abc\<close> receives a
  matching claim, resolves Duplicate and sets the flag; a click on the close button
  before the 500 ms timer has closed the channel then publishes session-closed with
  \<open>sessionId\<close> \<^verbatim>\<open>abc\<close>.
\<close>

theorem duplicate_click_publishes_closed:
  "promise (run (start (Some ''abc'') 0 ''r'')
      [(6, Message (createHashClaimMessage 5 ''abc'' (Some ''query-0-r'') ''abc''))]) = Some False \<and>
   isClosingAsDuplicate (run (start (Some ''abc'') 0 ''r'')
      [(6, Message (createHashClaimMessage 5 ''abc'' (Some ''query-0-r'') ''abc''))]) \<and>
   posted (run (start (Some ''abc'') 0 ''r'')
      [(6, Message (createHashClaimMessage 5 ''abc'' (Some ''query-0-r'') ''abc'')),
       (100, Click)]) =
     [createHashQueryMessage 0 ''abc'' ''query-0-r'', createSessionClosedMessage 100 ''abc'']"
  by (simp add: run_defs)

text \<open>
  Claim C10. After resolving Duplicate, \<open>isVerified\<close> stays false and message
  deliveries, both timers and \<^verbatim>\<open>beforeunload\<close> publish nothing
  (\<open>duplicate_silent_without_click\<close>). A click on the close button while the channel is
  open does publish: a session started without a hash parameter at time 1234 resolves
  Duplicate on a matching claim, and the click at 1300 appends a session-closed message
  to what it had published.
\<close>

theorem duplicate_publishes_after_resolution:
  "phaseDuplicate (run (start None 1234 ''r'')
      [(1240, Message
          (createHashClaimMessage 1239 ''session-1234'' (Some ''query-1234-r'') ''session-1234''))]) \<and>
   \<not> isVerified (run (start None 1234 ''r'')
      [(1240, Message
          (createHashClaimMessage 1239 ''session-1234'' (Some ''query-1234-r'') ''session-1234'')),
       (1300, Click)]) \<and>
   posted (run (start None 1234 ''r'')
      [(1240, Message
          (createHashClaimMessage 1239 ''session-1234'' (Some ''query-1234-r'') ''session-1234'')),
       (1300, Click)]) =
     posted (run (start None 1234 ''r'')
      [(1240, Message
          (createHashClaimMessage 1239 ''session-1234'' (Some ''query-1234-r'') ''session-1234''))])
     @ [createSessionClosedMessage 1300 ''session-1234'']"
  by (simp add: run_defs phaseDuplicate_def)

end
